theory Spec2Isabelle
  imports Main "HOL-Library.Multiset" "HOL-Library.Sublist"
begin

section \<open>Repository ingestion: \<open>RepositoryService.createRepository\<close>\<close>

text \<open>
  A shallow embedding of \<open>createRepository\<close> of the repository service. The service
  function itself is translated statement by statement. Its collaborators (the model
  classes \<open>Repository\<close>, \<open>Contributor\<close>, \<open>Branch\<close>, \<open>Commit\<close>, \<open>Commit_Branch\<close>,
  \<open>File\<close>, \<open>Modification\<close>, \<open>Repository_Language\<close>, \<open>Language\<close>, the validation
  handler and the metadata extractor \<open>repoInfo\<close>) are imported by the service from files
  that are not part of the sources; they are represented by an explicit relational
  store and by an environment of read-only functions.

  Strings are lists of characters. The only string operations of the function are
  \<open>lastIndexOf\<close> of a one-character ASCII needle, \<open>slice\<close> from a start index and
  equality, which act alike on code units and on bytes.
\<close>

subsection \<open>String helpers\<close>

text \<open>\<open>s.lastIndexOf(c)\<close>: the index of the last occurrence, or \<open>-1\<close>.\<close>

fun lastIndexOf_from :: "string \<Rightarrow> char \<Rightarrow> int \<Rightarrow> int \<Rightarrow> int" where
  "lastIndexOf_from [] c i found = found"
| "lastIndexOf_from (x # xs) c i found =
     lastIndexOf_from xs c (i + 1) (if x = c then i else found)"

definition lastIndexOf :: "string \<Rightarrow> char \<Rightarrow> int" where
  "lastIndexOf s c = lastIndexOf_from s c 0 (- 1)"

text \<open>\<open>s.slice(start)\<close>: a negative start counts from the end; the start is clamped.\<close>

definition slice :: "string \<Rightarrow> int \<Rightarrow> string" where
  "slice s start =
     (let n = int (length s);
          k = (if start < 0 then max (n + start) 0 else min start n)
      in drop (nat k) s)"

text \<open>\<open>file.name.slice(file.name.lastIndexOf(".") + 1)\<close>\<close>

definition file_ext :: "string \<Rightarrow> string" where
  "file_ext name = slice name (lastIndexOf name (CHR ''.'') + 1)"

text \<open>\<open>modification.file.slice(modification.file.lastIndexOf("/") + 1)\<close>\<close>

definition file_name_of_path :: "string \<Rightarrow> string" where
  "file_name_of_path path = slice path (lastIndexOf path (CHR ''/'') + 1)"

subsection \<open>Service results and faults\<close>

datatype error_type = BAD_REQUEST | FORBIDDEN | NOT_FOUND

text \<open>
  A service result is either \<open>{success: true, error: null, data: null}\<close> or a
  \<open>ServiceError(message, type)\<close>.
\<close>

datatype service_result = Success | ServiceError string error_type

text \<open>
  What can leave the function other than by \<open>return\<close>: reading \<open>.id\<close> of the
  \<open>undefined\<close> that \<open>Array.prototype.find\<close> yields on a miss, and a rejected store call.
\<close>

datatype exn = TypeError | StoreFailure

subsection \<open>Extraction result\<close>

record commit_in =
  ci_title :: string
  ci_content :: string
  ci_hash :: string
  ci_author :: string
  ci_created_at :: string
  ci_branches :: "string list"

datatype size_val = SizeNum nat | SizeStr string

record file_in =
  fi_name :: string
  fi_size :: size_val
  fi_path :: string

record branch_in =
  bi_name :: string
  bi_type :: string

record modification_in =
  mi_type :: string
  mi_file :: string
  mi_commit :: string

record extraction =
  ex_commits :: "commit_in list"
  ex_files :: "file_in list"
  ex_branches :: "branch_in list"
  ex_contributors :: "string list"
  ex_modifications :: "modification_in list"

record repo_data =
  rd_name :: string
  rd_description :: string
  rd_languages :: "string list"

subsection \<open>The relational store\<close>

record repository_row =
  rr_id :: nat
  rr_name :: string
  rr_description :: string
  rr_user_owner :: nat

record repository_language_row =
  rl_repo :: nat
  rl_language :: string

record contributor_row =
  cr_id :: nat
  cr_name :: string
  cr_repo :: nat

record branch_row =
  br_id :: nat
  br_name :: string
  br_type :: string
  br_repo :: nat

record commit_row =
  cm_id :: nat
  cm_title :: string
  cm_content :: string
  cm_hash :: string
  cm_author :: nat
  cm_created_at :: string
  cm_repo :: nat

record commit_branch_row =
  cb_commit :: nat
  cb_branch :: nat

record file_row =
  fr_id :: nat
  fr_name :: string
  fr_size :: size_val
  fr_path :: string
  fr_repo :: nat
  fr_language :: "nat option"

record modification_row =
  mr_id :: nat
  mr_type :: string
  mr_commit :: nat
  mr_file :: nat

text \<open>
  One table per entity, in insertion order. \<open>accepts\<close> is the store's fault behaviour:
  \<open>None\<close> is a store that never rejects, \<open>Some n\<close> one that performs \<open>n\<close> more saves
  and rejects the next.
\<close>

record store =
  repository_tbl :: "repository_row list"
  repository_language_tbl :: "repository_language_row list"
  contributor_tbl :: "contributor_row list"
  branch_tbl :: "branch_row list"
  commit_tbl :: "commit_row list"
  commit_branch_tbl :: "commit_branch_row list"
  file_tbl :: "file_row list"
  modification_tbl :: "modification_row list"
  accepts :: "nat option"

definition rejects :: "store \<Rightarrow> bool" where
  "rejects st = (accepts st = Some 0)"

definition tick :: "store \<Rightarrow> store" where
  "tick st = st\<lparr>accepts := map_option (\<lambda>n. n - 1) (accepts st)\<rparr>"

text \<open>Store-assigned identifiers: one more than the largest identifier of the table.\<close>

definition max_id :: "nat list \<Rightarrow> nat" where
  "max_id ids = foldr max ids 0"

definition fresh_id :: "nat list \<Rightarrow> nat" where
  "fresh_id ids = Suc (max_id ids)"

text \<open>
  Modelled from the spec: the \<open>save\<close> operations of the model classes, which are not
  among the sources. Each creates one row with a store-assigned identifier and
  returns the saved row (the service reads \<open>.id\<close>, \<open>.name\<close>, \<open>.hash\<close> and \<open>.path\<close> of
  what \<open>save\<close> returns), or rejects.
\<close>

definition Repository_save ::
  "string \<Rightarrow> string \<Rightarrow> nat \<Rightarrow> store \<Rightarrow> (exn + repository_row) \<times> store" where
  "Repository_save name description user_owner st =
     (if rejects st then (Inl StoreFailure, st)
      else let row = \<lparr>rr_id = fresh_id (map rr_id (repository_tbl st)), rr_name = name,
                        rr_description = description, rr_user_owner = user_owner\<rparr>
           in (Inr row, tick (st\<lparr>repository_tbl := repository_tbl st @ [row]\<rparr>)))"

definition Repository_Language_save ::
  "nat \<Rightarrow> string \<Rightarrow> store \<Rightarrow> (exn + unit) \<times> store" where
  "Repository_Language_save repo language st =
     (if rejects st then (Inl StoreFailure, st)
      else let row = \<lparr>rl_repo = repo, rl_language = language\<rparr>
           in (Inr (), tick (st\<lparr>repository_language_tbl := repository_language_tbl st @ [row]\<rparr>)))"

definition Contributor_save ::
  "string \<Rightarrow> nat \<Rightarrow> store \<Rightarrow> (exn + contributor_row) \<times> store" where
  "Contributor_save name repo st =
     (if rejects st then (Inl StoreFailure, st)
      else let row = \<lparr>cr_id = fresh_id (map cr_id (contributor_tbl st)), cr_name = name,
                        cr_repo = repo\<rparr>
           in (Inr row, tick (st\<lparr>contributor_tbl := contributor_tbl st @ [row]\<rparr>)))"

definition Branch_save ::
  "string \<Rightarrow> string \<Rightarrow> nat \<Rightarrow> store \<Rightarrow> (exn + branch_row) \<times> store" where
  "Branch_save name type repo st =
     (if rejects st then (Inl StoreFailure, st)
      else let row = \<lparr>br_id = fresh_id (map br_id (branch_tbl st)), br_name = name,
                        br_type = type, br_repo = repo\<rparr>
           in (Inr row, tick (st\<lparr>branch_tbl := branch_tbl st @ [row]\<rparr>)))"

definition Commit_save ::
  "commit_in \<Rightarrow> nat \<Rightarrow> nat \<Rightarrow> store \<Rightarrow> (exn + commit_row) \<times> store" where
  "Commit_save commit author repo st =
     (if rejects st then (Inl StoreFailure, st)
      else let row = \<lparr>cm_id = fresh_id (map cm_id (commit_tbl st)),
                        cm_title = ci_title commit, cm_content = ci_content commit,
                        cm_hash = ci_hash commit, cm_author = author,
                        cm_created_at = ci_created_at commit, cm_repo = repo\<rparr>
           in (Inr row, tick (st\<lparr>commit_tbl := commit_tbl st @ [row]\<rparr>)))"

definition Commit_Branch_save ::
  "nat \<Rightarrow> nat \<Rightarrow> store \<Rightarrow> (exn + unit) \<times> store" where
  "Commit_Branch_save commit branch st =
     (if rejects st then (Inl StoreFailure, st)
      else let row = \<lparr>cb_commit = commit, cb_branch = branch\<rparr>
           in (Inr (), tick (st\<lparr>commit_branch_tbl := commit_branch_tbl st @ [row]\<rparr>)))"

definition File_save ::
  "string \<Rightarrow> size_val \<Rightarrow> string \<Rightarrow> nat \<Rightarrow> nat option \<Rightarrow> store
     \<Rightarrow> (exn + file_row) \<times> store" where
  "File_save name sz path repo language st =
     (if rejects st then (Inl StoreFailure, st)
      else let row = \<lparr>fr_id = fresh_id (map fr_id (file_tbl st)), fr_name = name,
                        fr_size = sz, fr_path = path, fr_repo = repo,
                        fr_language = language\<rparr>
           in (Inr row, tick (st\<lparr>file_tbl := file_tbl st @ [row]\<rparr>)))"

definition Modification_save ::
  "string \<Rightarrow> nat \<Rightarrow> nat \<Rightarrow> store \<Rightarrow> (exn + modification_row) \<times> store" where
  "Modification_save type commit file st =
     (if rejects st then (Inl StoreFailure, st)
      else let row = \<lparr>mr_id = fresh_id (map mr_id (modification_tbl st)), mr_type = type,
                        mr_commit = commit, mr_file = file\<rparr>
           in (Inr row, tick (st\<lparr>modification_tbl := modification_tbl st @ [row]\<rparr>)))"

text \<open>
  Modelled from the spec: \<open>Repository.checkIfUserHasRepo\<close>, not among the sources
  (``the actor must not already own a repository of the same name'').
\<close>

definition checkIfUserHasRepo :: "string \<Rightarrow> nat \<Rightarrow> store \<Rightarrow> bool" where
  "checkIfUserHasRepo name user st =
     list_ex (\<lambda>r. rr_name r = name \<and> rr_user_owner r = user) (repository_tbl st)"

subsection \<open>The read-only collaborators\<close>

text \<open>
  \<open>validation\<close> is \<open>validationHandler\<close> applied to the four checks of the name, the
  token, the description and the language list: the first error, or the user id that
  the token resolves to. \<open>Language_checkIfExists\<close> and \<open>Language_getByExt\<close> are the
  language registry; \<open>repoInfo\<close> is the metadata extractor.
\<close>

record env =
  validation :: "repo_data \<Rightarrow> string \<Rightarrow> string + nat"
  checkIfExistsInBackend :: "string \<Rightarrow> bool"
  Language_checkIfExists :: "string \<Rightarrow> bool"
  Language_getByExt :: "string \<Rightarrow> nat option"
  repoInfo :: "string \<Rightarrow> extraction"

subsection \<open>The pre-checks\<close>

text \<open>
  The loop over the declared languages that returns at the first one the registry
  does not know; \<open>None\<close> when the loop runs to its end.
\<close>

fun check_languages :: "env \<Rightarrow> string list \<Rightarrow> service_result option" where
  "check_languages env [] = None"
| "check_languages env (lang # languages) =
     (if \<not> Language_checkIfExists env lang
      then Some (ServiceError (''Lenguaje '' @ lang @ '' no existe en la base de datos!'')
                   NOT_FOUND)
      else check_languages env languages)"

subsection \<open>The write cascade\<close>

text \<open>Relate languages with repository.\<close>

fun save_repo_languages :: "nat \<Rightarrow> string list \<Rightarrow> store \<Rightarrow> (exn + unit) \<times> store" where
  "save_repo_languages repo [] st = (Inr (), st)"
| "save_repo_languages repo (language # languages) st =
     (case Repository_Language_save repo language st of
        (Inl e, st1) \<Rightarrow> (Inl e, st1)
      | (Inr _, st1) \<Rightarrow> save_repo_languages repo languages st1)"

text \<open>Save the contributors; the accumulator is \<open>contributorsSaved\<close>.\<close>

fun save_contributors ::
  "nat \<Rightarrow> string list \<Rightarrow> contributor_row list \<Rightarrow> store
     \<Rightarrow> (exn + contributor_row list) \<times> store" where
  "save_contributors repo [] contributorsSaved st = (Inr contributorsSaved, st)"
| "save_contributors repo (contributor # rest) contributorsSaved st =
     (case Contributor_save contributor repo st of
        (Inl e, st1) \<Rightarrow> (Inl e, st1)
      | (Inr row, st1) \<Rightarrow> save_contributors repo rest (contributorsSaved @ [row]) st1)"

text \<open>Save the branches; the accumulator is \<open>branchesSaved\<close>.\<close>

fun save_branches ::
  "nat \<Rightarrow> branch_in list \<Rightarrow> branch_row list \<Rightarrow> store
     \<Rightarrow> (exn + branch_row list) \<times> store" where
  "save_branches repo [] branchesSaved st = (Inr branchesSaved, st)"
| "save_branches repo (branch # rest) branchesSaved st =
     (case Branch_save (bi_name branch) (bi_type branch) repo st of
        (Inl e, st1) \<Rightarrow> (Inl e, st1)
      | (Inr row, st1) \<Rightarrow> save_branches repo rest (branchesSaved @ [row]) st1)"

text \<open>Relate one saved commit with the branches selected for it.\<close>

fun save_commit_branches :: "nat \<Rightarrow> branch_row list \<Rightarrow> store \<Rightarrow> (exn + unit) \<times> store" where
  "save_commit_branches commit [] st = (Inr (), st)"
| "save_commit_branches commit (branchSaved # rest) st =
     (case Commit_Branch_save commit (br_id branchSaved) st of
        (Inl e, st1) \<Rightarrow> (Inl e, st1)
      | (Inr _, st1) \<Rightarrow> save_commit_branches commit rest st1)"

text \<open>
  Save the commits; the accumulator is \<open>commitsSaved\<close>. The author is
  \<open>contributorsSaved.find((c) => c.name == commit.author).id\<close>: a miss is a \<open>TypeError\<close>.
\<close>

fun save_commits ::
  "nat \<Rightarrow> contributor_row list \<Rightarrow> branch_row list \<Rightarrow> commit_in list \<Rightarrow> commit_row list
     \<Rightarrow> store \<Rightarrow> (exn + commit_row list) \<times> store" where
  "save_commits repo contributorsSaved branchesSaved [] commitsSaved st =
     (Inr commitsSaved, st)"
| "save_commits repo contributorsSaved branchesSaved (commit # rest) commitsSaved st =
     (case find (\<lambda>c. cr_name c = ci_author commit) contributorsSaved of
        None \<Rightarrow> (Inl TypeError, st)
      | Some contributor \<Rightarrow>
          (case Commit_save commit (cr_id contributor) repo st of
             (Inl e, st1) \<Rightarrow> (Inl e, st1)
           | (Inr commitSaved, st1) \<Rightarrow>
               (case save_commit_branches (cm_id commitSaved)
                       (filter (\<lambda>b. br_name b \<in> set (ci_branches commit)) branchesSaved) st1 of
                  (Inl e, st2) \<Rightarrow> (Inl e, st2)
                | (Inr _, st2) \<Rightarrow>
                    save_commits repo contributorsSaved branchesSaved rest
                      (commitsSaved @ [commitSaved]) st2)))"

text \<open>
  Save the modifications of one saved file; the accumulator is \<open>modificationsSaved\<close>.
  The commit is \<open>commitsSaved.find((c) => c.hash == fileModification.commit).id\<close>.
\<close>

fun save_file_modifications ::
  "commit_row list \<Rightarrow> nat \<Rightarrow> modification_in list \<Rightarrow> modification_row list \<Rightarrow> store
     \<Rightarrow> (exn + modification_row list) \<times> store" where
  "save_file_modifications commitsSaved file [] modificationsSaved st =
     (Inr modificationsSaved, st)"
| "save_file_modifications commitsSaved file (fileModification # rest) modificationsSaved st =
     (case find (\<lambda>c. cm_hash c = mi_commit fileModification) commitsSaved of
        None \<Rightarrow> (Inl TypeError, st)
      | Some commit \<Rightarrow>
          (case Modification_save (mi_type fileModification) (cm_id commit) file st of
             (Inl e, st1) \<Rightarrow> (Inl e, st1)
           | (Inr row, st1) \<Rightarrow>
               save_file_modifications commitsSaved file rest (modificationsSaved @ [row]) st1))"

text \<open>
  Save the files of the extraction, each with the modifications whose \<open>file\<close> is its
  path; the accumulators are \<open>filesSaved\<close> and \<open>modificationsSaved\<close>.
\<close>

fun save_files ::
  "env \<Rightarrow> nat \<Rightarrow> commit_row list \<Rightarrow> modification_in list \<Rightarrow> file_in list
     \<Rightarrow> file_row list \<Rightarrow> modification_row list \<Rightarrow> store
     \<Rightarrow> (exn + file_row list \<times> modification_row list) \<times> store" where
  "save_files env repo commitsSaved modifications [] filesSaved modificationsSaved st =
     (Inr (filesSaved, modificationsSaved), st)"
| "save_files env repo commitsSaved modifications (file # rest) filesSaved modificationsSaved st =
     (let ext = file_ext (fi_name file);
          language_id = Language_getByExt env ext
      in case File_save (fi_name file) (fi_size file) (fi_path file) repo language_id st of
           (Inl e, st1) \<Rightarrow> (Inl e, st1)
         | (Inr fileSaved, st1) \<Rightarrow>
             (case save_file_modifications commitsSaved (fr_id fileSaved)
                     (filter (\<lambda>m. mi_file m = fi_path file) modifications)
                     modificationsSaved st1 of
                (Inl e, st2) \<Rightarrow> (Inl e, st2)
              | (Inr modificationsSaved', st2) \<Rightarrow>
                  save_files env repo commitsSaved modifications rest
                    (filesSaved @ [fileSaved]) modificationsSaved' st2))"

text \<open>
  Save files deleted previously: the loop over \<open>deletedFilesModifications\<close>. The file
  saved has the size \<open>"N/A"\<close> and no \<open>language\<close> property.
\<close>

fun save_deleted ::
  "nat \<Rightarrow> commit_row list \<Rightarrow> modification_in list \<Rightarrow> modification_row list \<Rightarrow> store
     \<Rightarrow> (exn + modification_row list) \<times> store" where
  "save_deleted repo commitsSaved [] modificationsSaved st = (Inr modificationsSaved, st)"
| "save_deleted repo commitsSaved (modification # rest) modificationsSaved st =
     (case find (\<lambda>c. cm_hash c = mi_commit modification) commitsSaved of
        None \<Rightarrow> (Inl TypeError, st)
      | Some commit \<Rightarrow>
          (let file_name = file_name_of_path (mi_file modification)
           in case File_save file_name (SizeStr ''N/A'') (mi_file modification) repo None st of
                (Inl e, st1) \<Rightarrow> (Inl e, st1)
              | (Inr fileSaved, st1) \<Rightarrow>
                  (case Modification_save (mi_type modification) (cm_id commit)
                          (fr_id fileSaved) st1 of
                     (Inl e, st2) \<Rightarrow> (Inl e, st2)
                   | (Inr row, st2) \<Rightarrow>
                       save_deleted repo commitsSaved rest (modificationsSaved @ [row]) st2)))"

text \<open>
  \<open>modifications.filter((m) => !filesSaved.some((f) => f.path == m.file))\<close>
\<close>

definition deletedFilesModifications ::
  "file_row list \<Rightarrow> modification_in list \<Rightarrow> modification_in list" where
  "deletedFilesModifications filesSaved modifications =
     filter (\<lambda>m. \<not> list_ex (\<lambda>f. fr_path f = mi_file m) filesSaved) modifications"

text \<open>
  Everything from \<open>Repository.save\<close> to the end of the function: the steps run in
  sequence, and a fault of any step leaves at once, with the store as it then is.
\<close>

definition cascade ::
  "env \<Rightarrow> repo_data \<Rightarrow> nat \<Rightarrow> extraction \<Rightarrow> store \<Rightarrow> (exn + service_result) \<times> store" where
  "cascade env repoData user info st =
     (case Repository_save (rd_name repoData) (rd_description repoData) user st of
        (Inl e, st1) \<Rightarrow> (Inl e, st1)
      | (Inr repoSaved, st1) \<Rightarrow>
     (case save_repo_languages (rr_id repoSaved) (rd_languages repoData) st1 of
        (Inl e, st2) \<Rightarrow> (Inl e, st2)
      | (Inr _, st2) \<Rightarrow>
     (case save_contributors (rr_id repoSaved) (ex_contributors info) [] st2 of
        (Inl e, st3) \<Rightarrow> (Inl e, st3)
      | (Inr contributorsSaved, st3) \<Rightarrow>
     (case save_branches (rr_id repoSaved) (ex_branches info) [] st3 of
        (Inl e, st4) \<Rightarrow> (Inl e, st4)
      | (Inr branchesSaved, st4) \<Rightarrow>
     (case save_commits (rr_id repoSaved) contributorsSaved branchesSaved
             (ex_commits info) [] st4 of
        (Inl e, st5) \<Rightarrow> (Inl e, st5)
      | (Inr commitsSaved, st5) \<Rightarrow>
     (case save_files env (rr_id repoSaved) commitsSaved (ex_modifications info)
             (ex_files info) [] [] st5 of
        (Inl e, st6) \<Rightarrow> (Inl e, st6)
      | (Inr (filesSaved, modificationsSaved), st6) \<Rightarrow>
     (case save_deleted (rr_id repoSaved) commitsSaved
             (deletedFilesModifications filesSaved (ex_modifications info))
             modificationsSaved st6 of
        (Inl e, st7) \<Rightarrow> (Inl e, st7)
      | (Inr _, st7) \<Rightarrow> (Inr Success, st7))))))))"

subsection \<open>\<open>createRepository\<close>\<close>

definition createRepository ::
  "env \<Rightarrow> repo_data \<Rightarrow> string \<Rightarrow> store \<Rightarrow> (exn + service_result) \<times> store" where
  "createRepository env repoData token st =
     (case validation env repoData token of
        Inl err \<Rightarrow> (Inr (ServiceError err BAD_REQUEST), st)
      | Inr user \<Rightarrow>
          if \<not> checkIfExistsInBackend env (rd_name repoData)
          then (Inr (ServiceError ''Repositorio no existe en el servidor!'' NOT_FOUND), st)
          else if checkIfUserHasRepo (rd_name repoData) user st
          then (Inr (ServiceError ''Usuario ya tiene el repositorio!'' BAD_REQUEST), st)
          else (case check_languages env (rd_languages repoData) of
                  Some err \<Rightarrow> (Inr err, st)
                | None \<Rightarrow> cascade env repoData user (repoInfo env (rd_name repoData)) st))"

subsection \<open>Observations on stores\<close>

text \<open>The rows a table holds after a call beyond those it held before.\<close>

definition created :: "'a list \<Rightarrow> 'a list \<Rightarrow> 'a list" where
  "created before after = drop (length before) after"

subsection \<open>Identifiers of appended rows\<close>

text \<open>
  \<open>new\<close> are identifiers the store assigned one after the other to rows appended to
  a table whose identifiers were \<open>old\<close>: increasing, and above every old one.
\<close>

definition fresh_ids :: "nat list \<Rightarrow> nat list \<Rightarrow> bool" where
  "fresh_ids old new = sorted_wrt (<) (max_id old # new)"

text \<open>The rows of the join table that one saved commit gets.\<close>

definition commit_branch_rows ::
  "branch_row list \<Rightarrow> commit_in \<Rightarrow> commit_row \<Rightarrow> commit_branch_row list" where
  "commit_branch_rows branchesSaved commit commitSaved =
     map (\<lambda>b. \<lparr>cb_commit = cm_id commitSaved, cb_branch = br_id b\<rparr>)
       (filter (\<lambda>b. br_name b \<in> set (ci_branches commit)) branchesSaved)"

subsection \<open>Example inputs\<close>

definition demo_env :: "extraction \<Rightarrow> env" where
  "demo_env info =
     \<lparr>validation = (\<lambda>repoData token. if token = ''tok'' then Inr 7 else Inl ''Token invalido!''),
      checkIfExistsInBackend = (\<lambda>name. name = ''demo''),
      Language_checkIfExists = (\<lambda>lang. lang = ''JavaScript''),
      Language_getByExt = (\<lambda>ext. if ext = ''js'' then Some 1 else None),
      repoInfo = (\<lambda>name. info)\<rparr>"

definition demo_commit :: "string \<Rightarrow> string \<Rightarrow> string list \<Rightarrow> commit_in" where
  "demo_commit hash author branches =
     \<lparr>ci_title = ''title'', ci_content = ''content'', ci_hash = hash, ci_author = author,
      ci_created_at = ''2024-01-01'', ci_branches = branches\<rparr>"

definition demo_info :: extraction where
  "demo_info =
     \<lparr>ex_commits = [demo_commit ''h1'' ''alice'' [''main''],
                    demo_commit ''h2'' ''alice'' [''main'', ''feature'', ''gone'']],
      ex_files = [\<lparr>fi_name = ''app.js'', fi_size = SizeNum 10, fi_path = ''src/app.js''\<rparr>,
                  \<lparr>fi_name = ''Makefile'', fi_size = SizeNum 20, fi_path = ''Makefile''\<rparr>],
      ex_branches = [\<lparr>bi_name = ''main'', bi_type = ''local''\<rparr>,
                     \<lparr>bi_name = ''feature'', bi_type = ''local''\<rparr>],
      ex_contributors = [''alice''],
      ex_modifications =
        [\<lparr>mi_type = ''A'', mi_file = ''src/app.js'', mi_commit = ''h1''\<rparr>,
         \<lparr>mi_type = ''A'', mi_file = ''old/util.py'', mi_commit = ''h1''\<rparr>,
         \<lparr>mi_type = ''D'', mi_file = ''old/util.py'', mi_commit = ''h2''\<rparr>]\<rparr>"

definition empty_store :: store where
  "empty_store =
     \<lparr>repository_tbl = [], repository_language_tbl = [], contributor_tbl = [], branch_tbl = [],
      commit_tbl = [], commit_branch_tbl = [], file_tbl = [], modification_tbl = [],
      accepts = None\<rparr>"

definition demo_repo :: "string list \<Rightarrow> repo_data" where
  "demo_repo languages =
     \<lparr>rd_name = ''demo'', rd_description = ''a demo'', rd_languages = languages\<rparr>"

text \<open>A store in which user 7 already owns a repository named \<open>demo\<close>.\<close>

definition owned_store :: store where
  "owned_store = empty_store\<lparr>repository_tbl :=
     [\<lparr>rr_id = 1, rr_name = ''demo'', rr_description = ''a demo'', rr_user_owner = 7\<rparr>]\<rparr>"

text \<open>The store after the ingestion of \<open>demo_info\<close> into the empty store.\<close>

definition demo_final :: store where
  "demo_final =
     \<lparr>repository_tbl =
        [\<lparr>rr_id = 1, rr_name = ''demo'', rr_description = ''a demo'', rr_user_owner = 7\<rparr>],
      repository_language_tbl = [\<lparr>rl_repo = 1, rl_language = ''JavaScript''\<rparr>],
      contributor_tbl = [\<lparr>cr_id = 1, cr_name = ''alice'', cr_repo = 1\<rparr>],
      branch_tbl =
        [\<lparr>br_id = 1, br_name = ''main'', br_type = ''local'', br_repo = 1\<rparr>,
         \<lparr>br_id = 2, br_name = ''feature'', br_type = ''local'', br_repo = 1\<rparr>],
      commit_tbl =
        [\<lparr>cm_id = 1, cm_title = ''title'', cm_content = ''content'', cm_hash = ''h1'',
            cm_author = 1, cm_created_at = ''2024-01-01'', cm_repo = 1\<rparr>,
         \<lparr>cm_id = 2, cm_title = ''title'', cm_content = ''content'', cm_hash = ''h2'',
            cm_author = 1, cm_created_at = ''2024-01-01'', cm_repo = 1\<rparr>],
      commit_branch_tbl =
        [\<lparr>cb_commit = 1, cb_branch = 1\<rparr>, \<lparr>cb_commit = 2, cb_branch = 1\<rparr>,
         \<lparr>cb_commit = 2, cb_branch = 2\<rparr>],
      file_tbl =
        [\<lparr>fr_id = 1, fr_name = ''app.js'', fr_size = SizeNum 10, fr_path = ''src/app.js'',
            fr_repo = 1, fr_language = Some 1\<rparr>,
         \<lparr>fr_id = 2, fr_name = ''Makefile'', fr_size = SizeNum 20, fr_path = ''Makefile'',
            fr_repo = 1, fr_language = None\<rparr>,
         \<lparr>fr_id = 3, fr_name = ''util.py'', fr_size = SizeStr ''N/A'', fr_path = ''old/util.py'',
            fr_repo = 1, fr_language = None\<rparr>,
         \<lparr>fr_id = 4, fr_name = ''util.py'', fr_size = SizeStr ''N/A'', fr_path = ''old/util.py'',
            fr_repo = 1, fr_language = None\<rparr>],
      modification_tbl =
        [\<lparr>mr_id = 1, mr_type = ''A'', mr_commit = 1, mr_file = 1\<rparr>,
         \<lparr>mr_id = 2, mr_type = ''A'', mr_commit = 1, mr_file = 3\<rparr>,
         \<lparr>mr_id = 3, mr_type = ''D'', mr_commit = 2, mr_file = 4\<rparr>],
      accepts = None\<rparr>"


text \<open>
  What the steps after the creation of the repository row may do to the store,
  whether they complete or not: the table of repositories is as it was, and every
  other table still begins with the rows it had.
\<close>

definition later_steps :: "store \<Rightarrow> store \<Rightarrow> bool" where
  "later_steps st st' \<longleftrightarrow>
     repository_tbl st' = repository_tbl st \<and>
     prefix (repository_language_tbl st) (repository_language_tbl st') \<and>
     prefix (contributor_tbl st) (contributor_tbl st') \<and>
     prefix (branch_tbl st) (branch_tbl st') \<and>
     prefix (commit_tbl st) (commit_tbl st') \<and>
     prefix (commit_branch_tbl st) (commit_branch_tbl st') \<and>
     prefix (file_tbl st) (file_tbl st') \<and>
     prefix (modification_tbl st) (modification_tbl st')"



text \<open>An extraction whose only commit is by an author who is not among its contributors.\<close>

definition unknown_author_info :: extraction where
  "unknown_author_info =
     \<lparr>ex_commits = [demo_commit ''h1'' ''bob'' [''main'']],
      ex_files = [],
      ex_branches = [\<lparr>bi_name = ''main'', bi_type = ''local''\<rparr>],
      ex_contributors = [''alice''],
      ex_modifications = []\<rparr>"

text \<open>
  An extraction with two branches of one name (a local and a remote \<open>main\<close>), and the
  store after its ingestion into the empty store.
\<close>

definition twin_info :: extraction where
  "twin_info =
     \<lparr>ex_commits = [demo_commit ''h1'' ''alice'' [''main'']],
      ex_files = [],
      ex_branches = [\<lparr>bi_name = ''main'', bi_type = ''local''\<rparr>,
                     \<lparr>bi_name = ''main'', bi_type = ''remote''\<rparr>,
                     \<lparr>bi_name = ''feature'', bi_type = ''local''\<rparr>],
      ex_contributors = [''alice''],
      ex_modifications = []\<rparr>"

definition twin_final :: store where
  "twin_final =
     \<lparr>repository_tbl =
        [\<lparr>rr_id = 1, rr_name = ''demo'', rr_description = ''a demo'', rr_user_owner = 7\<rparr>],
      repository_language_tbl = [],
      contributor_tbl = [\<lparr>cr_id = 1, cr_name = ''alice'', cr_repo = 1\<rparr>],
      branch_tbl =
        [\<lparr>br_id = 1, br_name = ''main'', br_type = ''local'', br_repo = 1\<rparr>,
         \<lparr>br_id = 2, br_name = ''main'', br_type = ''remote'', br_repo = 1\<rparr>,
         \<lparr>br_id = 3, br_name = ''feature'', br_type = ''local'', br_repo = 1\<rparr>],
      commit_tbl =
        [\<lparr>cm_id = 1, cm_title = ''title'', cm_content = ''content'', cm_hash = ''h1'',
            cm_author = 1, cm_created_at = ''2024-01-01'', cm_repo = 1\<rparr>],
      commit_branch_tbl =
        [\<lparr>cb_commit = 1, cb_branch = 1\<rparr>, \<lparr>cb_commit = 1, cb_branch = 2\<rparr>],
      file_tbl = [], modification_tbl = [], accepts = None\<rparr>"

subsection \<open>Chaining of steps, and stores compared\<close>





text \<open>Two stores with the same rows; they may differ in what they will accept.\<close>

definition same_tables :: "store \<Rightarrow> store \<Rightarrow> bool" where
  "same_tables s t \<longleftrightarrow>
     repository_tbl s = repository_tbl t \<and>
     repository_language_tbl s = repository_language_tbl t \<and>
     contributor_tbl s = contributor_tbl t \<and> branch_tbl s = branch_tbl t \<and>
     commit_tbl s = commit_tbl t \<and> commit_branch_tbl s = commit_branch_tbl t \<and>
     file_tbl s = file_tbl t \<and> modification_tbl s = modification_tbl t"







section \<open>Properties\<close>

lemmas save_defs = Repository_save_def Repository_Language_save_def Contributor_save_def
  Branch_save_def Commit_save_def Commit_Branch_save_def File_save_def Modification_save_def
  rejects_def tick_def fresh_id_def max_id_def

lemmas demo_defs = demo_env_def demo_commit_def demo_info_def empty_store_def demo_repo_def
  createRepository_def cascade_def checkIfUserHasRepo_def deletedFilesModifications_def
  file_ext_def file_name_of_path_def slice_def lastIndexOf_def Let_def

subsection \<open>The language loop of the pre-checks\<close>

lemma check_languages_None:
  "check_languages env languages = None \<longleftrightarrow>
     (\<forall>lang \<in> set languages. Language_checkIfExists env lang)"
  by (induction languages) auto

lemma check_languages_Some:
  "check_languages env languages = Some err \<Longrightarrow>
   \<exists>lang \<in> set languages. \<not> Language_checkIfExists env lang \<and>
     err = ServiceError (''Lenguaje '' @ lang @ '' no existe en la base de datos!'') NOT_FOUND"
  by (induction languages) (auto split: if_splits)

subsection \<open>Store-assigned identifiers\<close>

lemma foldr_max_start: "foldr max xs (b::nat) = max (foldr max xs 0) b"
  by (induction xs) auto

lemma max_id_append: "max_id (xs @ ys) = max (max_id xs) (max_id ys)"
  unfolding max_id_def by (simp add: foldr_max_start [of xs "foldr max ys 0"])

lemma max_id_ge: "x \<in> set xs \<Longrightarrow> x \<le> max_id xs"
  unfolding max_id_def by (induction xs) auto

lemma max_id_snoc_fresh: "max_id (ids @ [fresh_id ids]) = fresh_id ids"
  by (simp add: max_id_append fresh_id_def) (simp add: max_id_def)

lemma fresh_ids_Nil [simp]: "fresh_ids old []"
  by (simp add: fresh_ids_def)

lemma fresh_ids_Cons:
  "fresh_ids (old @ [fresh_id old]) new \<Longrightarrow> fresh_ids old (fresh_id old # new)"
  unfolding fresh_ids_def max_id_snoc_fresh by (auto simp: fresh_id_def)

lemma fresh_ids_append:
  assumes "fresh_ids old a" and "fresh_ids (old @ a) b"
  shows "fresh_ids old (a @ b)"
proof -
  have "\<forall>x \<in> set a. x \<le> max_id (old @ a)"
    by (simp add: max_id_append max_id_ge max.coboundedI2)
  moreover have "max_id old \<le> max_id (old @ a)"
    by (simp add: max_id_append)
  ultimately show ?thesis
    using assms unfolding fresh_ids_def by (fastforce simp: sorted_wrt_append)
qed

lemma fresh_ids_distinct: "fresh_ids old new \<Longrightarrow> distinct new"
  unfolding fresh_ids_def using strict_sorted_iff [of "max_id old # new"] by simp
    
lemma fresh_ids_above: "fresh_ids old new \<Longrightarrow> x \<in> set old \<Longrightarrow> y \<in> set new \<Longrightarrow> x < y"
  unfolding fresh_ids_def using max_id_ge [of x old] by auto

lemma created_append [simp]: "created xs (xs @ ys) = ys"
  by (simp add: created_def)


subsection \<open>Effect of a successful save\<close>

lemma Repository_save_ok:
  "Repository_save name description user st = (Inr row, st1) \<Longrightarrow>
   rr_id row = fresh_id (map rr_id (repository_tbl st)) \<and> rr_name row = name \<and>
   rr_description row = description \<and> rr_user_owner row = user \<and>
   (\<exists>a. st1 = st\<lparr>repository_tbl := repository_tbl st @ [row], accepts := a\<rparr>)"
  by (auto simp: Repository_save_def tick_def Let_def split: if_splits)

lemma Repository_Language_save_ok:
  "Repository_Language_save repo l st = (Inr u, st1) \<Longrightarrow>
   \<exists>a. st1 = st\<lparr>repository_language_tbl := repository_language_tbl st @
       [\<lparr>rl_repo = repo, rl_language = l\<rparr>], accepts := a\<rparr>"
  by (auto simp: Repository_Language_save_def tick_def Let_def split: if_splits)

lemma Contributor_save_ok:
  "Contributor_save name repo st = (Inr row, st1) \<Longrightarrow>
   cr_id row = fresh_id (map cr_id (contributor_tbl st)) \<and> cr_name row = name \<and>
   cr_repo row = repo \<and>
   (\<exists>a. st1 = st\<lparr>contributor_tbl := contributor_tbl st @ [row], accepts := a\<rparr>)"
  by (auto simp: Contributor_save_def tick_def Let_def split: if_splits)

lemma Branch_save_ok:
  "Branch_save name type repo st = (Inr row, st1) \<Longrightarrow>
   br_id row = fresh_id (map br_id (branch_tbl st)) \<and> br_name row = name \<and>
   br_type row = type \<and> br_repo row = repo \<and>
   (\<exists>a. st1 = st\<lparr>branch_tbl := branch_tbl st @ [row], accepts := a\<rparr>)"
  by (auto simp: Branch_save_def tick_def Let_def split: if_splits)

lemma Commit_save_ok:
  "Commit_save commit author repo st = (Inr row, st1) \<Longrightarrow>
   cm_id row = fresh_id (map cm_id (commit_tbl st)) \<and> cm_hash row = ci_hash commit \<and>
   cm_author row = author \<and> cm_repo row = repo \<and>
   (\<exists>a. st1 = st\<lparr>commit_tbl := commit_tbl st @ [row], accepts := a\<rparr>)"
  by (auto simp: Commit_save_def tick_def Let_def split: if_splits)

lemma Commit_Branch_save_ok:
  "Commit_Branch_save commit branch st = (Inr u, st1) \<Longrightarrow>
   \<exists>a. st1 = st\<lparr>commit_branch_tbl := commit_branch_tbl st @
       [\<lparr>cb_commit = commit, cb_branch = branch\<rparr>], accepts := a\<rparr>"
  by (auto simp: Commit_Branch_save_def tick_def Let_def split: if_splits)

lemma File_save_ok:
  "File_save name sz path repo language st = (Inr row, st1) \<Longrightarrow>
   fr_id row = fresh_id (map fr_id (file_tbl st)) \<and> fr_name row = name \<and> fr_size row = sz \<and>
   fr_path row = path \<and> fr_repo row = repo \<and> fr_language row = language \<and>
   (\<exists>a. st1 = st\<lparr>file_tbl := file_tbl st @ [row], accepts := a\<rparr>)"
  by (auto simp: File_save_def tick_def Let_def split: if_splits)

lemma Modification_save_ok:
  "Modification_save type commit file st = (Inr row, st1) \<Longrightarrow>
   mr_id row = fresh_id (map mr_id (modification_tbl st)) \<and> mr_type row = type \<and>
   mr_commit row = commit \<and> mr_file row = file \<and>
   (\<exists>a. st1 = st\<lparr>modification_tbl := modification_tbl st @ [row], accepts := a\<rparr>)"
  by (auto simp: Modification_save_def tick_def Let_def split: if_splits)

subsection \<open>Effect of the loops of the cascade when they complete\<close>

lemma save_repo_languages_ok:
  "save_repo_languages repo ls st = (Inr u, st') \<Longrightarrow>
   \<exists>a. st' = st\<lparr>repository_language_tbl := repository_language_tbl st @
                    map (\<lambda>l. \<lparr>rl_repo = repo, rl_language = l\<rparr>) ls,
                 accepts := a\<rparr>"
proof (induction ls arbitrary: st)
  case Nil
  then have "st' = st\<lparr>repository_language_tbl := repository_language_tbl st @
      map (\<lambda>l. \<lparr>rl_repo = repo, rl_language = l\<rparr>) [], accepts := accepts st\<rparr>"
    by simp
  then show ?case by (rule exI)
next
  case (Cons l ls)
  from Cons.prems obtain st1 where
    s: "Repository_Language_save repo l st = (Inr (), st1)" and
    r: "save_repo_languages repo ls st1 = (Inr u, st')"
    by (auto split: prod.splits sum.splits)
  from Repository_Language_save_ok [OF s] obtain a1 where
    st1: "st1 = st\<lparr>repository_language_tbl := repository_language_tbl st @
       [\<lparr>rl_repo = repo, rl_language = l\<rparr>], accepts := a1\<rparr>"
    by blast
  from Cons.IH [OF r] obtain a where
    "st' = st1\<lparr>repository_language_tbl := repository_language_tbl st1 @
                    map (\<lambda>l. \<lparr>rl_repo = repo, rl_language = l\<rparr>) ls, accepts := a\<rparr>"
    by blast
  then have "st' = st\<lparr>repository_language_tbl := repository_language_tbl st @
      map (\<lambda>l. \<lparr>rl_repo = repo, rl_language = l\<rparr>) (l # ls), accepts := a\<rparr>"
    by (simp add: st1)
  then show ?case by (rule exI)
qed

lemma save_contributors_ok:
  "save_contributors repo ns acc st = (Inr out, st') \<Longrightarrow>
   \<exists>rows a. out = acc @ rows \<and>
     st' = st\<lparr>contributor_tbl := contributor_tbl st @ rows, accepts := a\<rparr> \<and>
     map cr_name rows = ns"
proof (induction ns arbitrary: acc st)
  case Nil
  then have "out = acc @ []"
    "st' = st\<lparr>contributor_tbl := contributor_tbl st @ [], accepts := accepts st\<rparr>"
    "map cr_name [] = ([]::string list)"
    by simp_all
  then show ?case by (intro exI [of _ "[]"] exI [of _ "accepts st"] conjI)
next
  case (Cons n ns)
  from Cons.prems obtain row st1 where
    s: "Contributor_save n repo st = (Inr row, st1)" and
    r: "save_contributors repo ns (acc @ [row]) st1 = (Inr out, st')"
    by (auto split: prod.splits sum.splits)
  from Contributor_save_ok [OF s] obtain a1 where row: "cr_name row = n" and
    st1: "st1 = st\<lparr>contributor_tbl := contributor_tbl st @ [row], accepts := a1\<rparr>"
    by blast
  from Cons.IH [OF r] obtain rows a where ih:
    "out = (acc @ [row]) @ rows"
    "st' = st1\<lparr>contributor_tbl := contributor_tbl st1 @ rows, accepts := a\<rparr>"
    "map cr_name rows = ns" by blast
  have 1: "out = acc @ (row # rows)"
    using ih(1) by simp
  have 2: "st' = st\<lparr>contributor_tbl := contributor_tbl st @ (row # rows), accepts := a\<rparr>"
    using ih(2) by (simp add: st1)
  have 3: "map cr_name (row # rows) = n # ns"
    by (simp only: list.map row ih(3))
  show ?case by (intro exI [of _ "row # rows"] exI [of _ a] conjI 1 2 3)
qed

lemma save_branches_ok:
  "save_branches repo bs acc st = (Inr out, st') \<Longrightarrow>
   \<exists>rows a. out = acc @ rows \<and>
     st' = st\<lparr>branch_tbl := branch_tbl st @ rows, accepts := a\<rparr> \<and>
     map br_name rows = map bi_name bs \<and>
     fresh_ids (map br_id (branch_tbl st)) (map br_id rows)"
proof (induction bs arbitrary: acc st)
  case Nil
  then have "out = acc @ []"
    "st' = st\<lparr>branch_tbl := branch_tbl st @ [], accepts := accepts st\<rparr>"
    "map br_name [] = map bi_name []"
    "fresh_ids (map br_id (branch_tbl st)) (map br_id [])"
    by simp_all
  then show ?case by (intro exI [of _ "[]"] exI [of _ "accepts st"] conjI)
next
  case (Cons b bs)
  from Cons.prems obtain row st1 where
    s: "Branch_save (bi_name b) (bi_type b) repo st = (Inr row, st1)" and
    r: "save_branches repo bs (acc @ [row]) st1 = (Inr out, st')"
    by (auto split: prod.splits sum.splits)
  from Branch_save_ok [OF s] obtain a1 where row: "br_name row = bi_name b"
    "br_id row = fresh_id (map br_id (branch_tbl st))" and
    st1: "st1 = st\<lparr>branch_tbl := branch_tbl st @ [row], accepts := a1\<rparr>"
    by blast
  from Cons.IH [OF r] obtain rows a where ih:
    "out = (acc @ [row]) @ rows"
    "st' = st1\<lparr>branch_tbl := branch_tbl st1 @ rows, accepts := a\<rparr>"
    "map br_name rows = map bi_name bs"
    "fresh_ids (map br_id (branch_tbl st1)) (map br_id rows)" by blast
  have 1: "out = acc @ (row # rows)"
    using ih(1) by simp
  have 2: "st' = st\<lparr>branch_tbl := branch_tbl st @ (row # rows), accepts := a\<rparr>"
    using ih(2) by (simp add: st1)
  have 3: "map br_name (row # rows) = map bi_name (b # bs)"
    by (simp only: list.map row ih(3))
  have 4: "fresh_ids (map br_id (branch_tbl st)) (map br_id (row # rows))"
    using ih(4) by (simp add: st1 row fresh_ids_Cons)
  show ?case by (intro exI [of _ "row # rows"] exI [of _ a] conjI 1 2 3 4)
qed

lemma save_commit_branches_ok:
  "save_commit_branches commit bs st = (Inr u, st') \<Longrightarrow>
   \<exists>a. st' = st\<lparr>commit_branch_tbl := commit_branch_tbl st @
                    map (\<lambda>b. \<lparr>cb_commit = commit, cb_branch = br_id b\<rparr>) bs,
                 accepts := a\<rparr>"
proof (induction bs arbitrary: st)
  case Nil
  then have "st' = st\<lparr>commit_branch_tbl := commit_branch_tbl st @
      map (\<lambda>b. \<lparr>cb_commit = commit, cb_branch = br_id b\<rparr>) [], accepts := accepts st\<rparr>"
    by simp
  then show ?case by (rule exI)
next
  case (Cons b bs)
  from Cons.prems obtain st1 where
    s: "Commit_Branch_save commit (br_id b) st = (Inr (), st1)" and
    r: "save_commit_branches commit bs st1 = (Inr u, st')"
    by (auto split: prod.splits sum.splits)
  from Commit_Branch_save_ok [OF s] obtain a1 where
    st1: "st1 = st\<lparr>commit_branch_tbl := commit_branch_tbl st @
       [\<lparr>cb_commit = commit, cb_branch = br_id b\<rparr>], accepts := a1\<rparr>"
    by blast
  from Cons.IH [OF r] obtain a where
    "st' = st1\<lparr>commit_branch_tbl := commit_branch_tbl st1 @
                    map (\<lambda>b. \<lparr>cb_commit = commit, cb_branch = br_id b\<rparr>) bs, accepts := a\<rparr>"
    by blast
  then have "st' = st\<lparr>commit_branch_tbl := commit_branch_tbl st @
      map (\<lambda>b. \<lparr>cb_commit = commit, cb_branch = br_id b\<rparr>) (b # bs), accepts := a\<rparr>"
    by (simp add: st1)
  then show ?case by (rule exI)
qed

lemma save_commits_Cons:
  "save_commits repo csaved bsaved (c # cs) acc st = (Inr out, st') \<Longrightarrow>
   \<exists>k row st1 st2. find (\<lambda>k. cr_name k = ci_author c) csaved = Some k \<and>
     Commit_save c (cr_id k) repo st = (Inr row, st1) \<and>
     save_commit_branches (cm_id row)
          (filter (\<lambda>b. br_name b \<in> set (ci_branches c)) bsaved) st1 = (Inr (), st2) \<and>
     save_commits repo csaved bsaved cs (acc @ [row]) st2 = (Inr out, st')"
  by (auto split: prod.splits sum.splits option.splits)

lemma save_commits_ok:
  "save_commits repo csaved bsaved cs acc st = (Inr out, st') \<Longrightarrow>
   \<exists>rows a. out = acc @ rows \<and>
     st' = st\<lparr>commit_tbl := commit_tbl st @ rows,
              commit_branch_tbl := commit_branch_tbl st @
                concat (map2 (commit_branch_rows bsaved) cs rows),
              accepts := a\<rparr> \<and>
     map cm_hash rows = map ci_hash cs \<and>
     (\<forall>r \<in> set rows. cm_repo r = repo) \<and>
     fresh_ids (map cm_id (commit_tbl st)) (map cm_id rows)"
proof (induction cs arbitrary: acc st)
  case Nil
  then have "out = acc @ []"
    "st' = st\<lparr>commit_tbl := commit_tbl st @ [],
              commit_branch_tbl := commit_branch_tbl st @
                concat (map2 (commit_branch_rows bsaved) [] []),
              accepts := accepts st\<rparr>"
    "map cm_hash [] = map ci_hash []"
    "\<forall>r \<in> set ([]::commit_row list). cm_repo r = repo"
    "fresh_ids (map cm_id (commit_tbl st)) (map cm_id [])"
    by simp_all
  then show ?case by (intro exI [of _ "[]"] exI [of _ "accepts st"] conjI)
next
  case (Cons c cs)
  from save_commits_Cons [OF Cons.prems] obtain k :: contributor_row and row st1 st2 where
    s: "Commit_save c (cr_id k) repo st = (Inr row, st1)" and
    b: "save_commit_branches (cm_id row)
          (filter (\<lambda>b. br_name b \<in> set (ci_branches c)) bsaved) st1 = (Inr (), st2)" and
    r: "save_commits repo csaved bsaved cs (acc @ [row]) st2 = (Inr out, st')"
    by blast
  from Commit_save_ok [OF s] obtain a1 where row: "cm_hash row = ci_hash c"
    "cm_repo row = repo" "cm_id row = fresh_id (map cm_id (commit_tbl st))" and
    st1: "st1 = st\<lparr>commit_tbl := commit_tbl st @ [row], accepts := a1\<rparr>"
    by blast
  from save_commit_branches_ok [OF b] obtain a2 where
    st2: "st2 = st1\<lparr>commit_branch_tbl := commit_branch_tbl st1 @
        commit_branch_rows bsaved c row, accepts := a2\<rparr>"
    unfolding commit_branch_rows_def by blast
  from Cons.IH [OF r] obtain rows a where ih:
    "out = (acc @ [row]) @ rows"
    "st' = st2\<lparr>commit_tbl := commit_tbl st2 @ rows,
              commit_branch_tbl := commit_branch_tbl st2 @
                concat (map2 (commit_branch_rows bsaved) cs rows),
              accepts := a\<rparr>"
    "map cm_hash rows = map ci_hash cs"
    "\<forall>r \<in> set rows. cm_repo r = repo"
    "fresh_ids (map cm_id (commit_tbl st2)) (map cm_id rows)" by blast
  have 1: "out = acc @ (row # rows)"
    using ih(1) by simp
  have 2: "st' = st\<lparr>commit_tbl := commit_tbl st @ (row # rows),
              commit_branch_tbl := commit_branch_tbl st @
                concat (map2 (commit_branch_rows bsaved) (c # cs) (row # rows)),
              accepts := a\<rparr>"
    using ih(2) by (simp add: st2 st1)
  have 3: "map cm_hash (row # rows) = map ci_hash (c # cs)"
    by (simp only: list.map row ih(3))
  have 4: "\<forall>r \<in> set (row # rows). cm_repo r = repo"
    using ih(4) row(2) by simp
  have 5: "fresh_ids (map cm_id (commit_tbl st)) (map cm_id (row # rows))"
    using ih(5) by (simp add: st2 st1 row fresh_ids_Cons)
  show ?case by (intro exI [of _ "row # rows"] exI [of _ a] conjI 1 2 3 4 5)
qed

lemma find_SomeD: "find P xs = Some x \<Longrightarrow> x \<in> set xs \<and> P x"
  by (induction xs) (auto split: if_splits)

lemma save_file_modifications_Cons:
  "save_file_modifications csaved fid (m # ms) acc st = (Inr out, st') \<Longrightarrow>
   \<exists>c row st1. find (\<lambda>c. cm_hash c = mi_commit m) csaved = Some c \<and>
     Modification_save (mi_type m) (cm_id c) fid st = (Inr row, st1) \<and>
     save_file_modifications csaved fid ms (acc @ [row]) st1 = (Inr out, st')"
  by (auto split: prod.splits sum.splits option.splits)

lemma save_file_modifications_ok:
  "save_file_modifications csaved fid ms acc st = (Inr out, st') \<Longrightarrow>
   \<exists>rows a. out = acc @ rows \<and>
     st' = st\<lparr>modification_tbl := modification_tbl st @ rows, accepts := a\<rparr> \<and>
     list_all2 (\<lambda>m r. mr_type r = mi_type m \<and> mr_file r = fid \<and>
        (\<exists>c \<in> set csaved. cm_hash c = mi_commit m \<and> mr_commit r = cm_id c)) ms rows"
proof (induction ms arbitrary: acc st)
  case Nil
  then have "out = acc @ []"
    "st' = st\<lparr>modification_tbl := modification_tbl st @ [], accepts := accepts st\<rparr>"
    "list_all2 (\<lambda>m r. mr_type r = mi_type m \<and> mr_file r = fid \<and>
        (\<exists>c \<in> set csaved. cm_hash c = mi_commit m \<and> mr_commit r = cm_id c)) [] []"
    by simp_all
  then show ?case by (intro exI [of _ "[]"] exI [of _ "accepts st"] conjI)
next
  case (Cons m ms)
  from save_file_modifications_Cons [OF Cons.prems] obtain c :: commit_row and row st1 where
    c: "find (\<lambda>c. cm_hash c = mi_commit m) csaved = Some c" and
    s: "Modification_save (mi_type m) (cm_id c) fid st = (Inr row, st1)" and
    r: "save_file_modifications csaved fid ms (acc @ [row]) st1 = (Inr out, st')"
    by blast
  from find_SomeD [OF c] have c': "c \<in> set csaved" "cm_hash c = mi_commit m"
    by simp_all
  from Modification_save_ok [OF s] obtain a1 where row: "mr_type row = mi_type m"
    "mr_commit row = cm_id c" "mr_file row = fid" and
    st1: "st1 = st\<lparr>modification_tbl := modification_tbl st @ [row], accepts := a1\<rparr>"
    by blast
  from Cons.IH [OF r] obtain rows a where ih:
    "out = (acc @ [row]) @ rows"
    "st' = st1\<lparr>modification_tbl := modification_tbl st1 @ rows, accepts := a\<rparr>"
    "list_all2 (\<lambda>m r. mr_type r = mi_type m \<and> mr_file r = fid \<and>
        (\<exists>c \<in> set csaved. cm_hash c = mi_commit m \<and> mr_commit r = cm_id c)) ms rows"
    by blast
  have 1: "out = acc @ (row # rows)"
    using ih(1) by simp
  have 2: "st' = st\<lparr>modification_tbl := modification_tbl st @ (row # rows), accepts := a\<rparr>"
    using ih(2) by (simp add: st1)
  have 3: "list_all2 (\<lambda>m r. mr_type r = mi_type m \<and> mr_file r = fid \<and>
        (\<exists>c \<in> set csaved. cm_hash c = mi_commit m \<and> mr_commit r = cm_id c))
      (m # ms) (row # rows)"
    using ih(3) row c' by auto
  show ?case by (intro exI [of _ "row # rows"] exI [of _ a] conjI 1 2 3)
qed

lemma save_files_Cons:
  "save_files env repo csaved mods (f # fs) accF accM st = (Inr (outF, outM), st') \<Longrightarrow>
   \<exists>fileSaved st1 accM' st2.
     File_save (fi_name f) (fi_size f) (fi_path f) repo
       (Language_getByExt env (file_ext (fi_name f))) st = (Inr fileSaved, st1) \<and>
     save_file_modifications csaved (fr_id fileSaved)
       (filter (\<lambda>m. mi_file m = fi_path f) mods) accM st1 = (Inr accM', st2) \<and>
     save_files env repo csaved mods fs (accF @ [fileSaved]) accM' st2 = (Inr (outF, outM), st')"
  by (auto simp: Let_def split: prod.splits sum.splits)

lemma save_files_ok:
  "save_files env repo csaved mods fs accF accM st = (Inr (outF, outM), st') \<Longrightarrow>
   \<exists>rowsF rowsM a. outF = accF @ rowsF \<and> outM = accM @ rowsM \<and>
     st' = st\<lparr>file_tbl := file_tbl st @ rowsF,
              modification_tbl := modification_tbl st @ rowsM, accepts := a\<rparr> \<and>
     list_all2 (\<lambda>f r. fr_name r = fi_name f \<and> fr_size r = fi_size f \<and>
        fr_path r = fi_path f \<and> fr_repo r = repo \<and>
        fr_language r = Language_getByExt env (file_ext (fi_name f))) fs rowsF \<and>
     fresh_ids (map fr_id (file_tbl st)) (map fr_id rowsF) \<and>
     list_all2 (\<lambda>m r. mr_type r = mi_type m \<and>
        (\<exists>c \<in> set csaved. cm_hash c = mi_commit m \<and> mr_commit r = cm_id c) \<and>
        (\<exists>f \<in> set rowsF. fr_path f = mi_file m \<and> mr_file r = fr_id f))
       (concat (map (\<lambda>f. filter (\<lambda>m. mi_file m = fi_path f) mods) fs)) rowsM"
proof (induction fs arbitrary: accF accM st)
  case Nil
  then have "outF = accF @ []" "outM = accM @ []"
    "st' = st\<lparr>file_tbl := file_tbl st @ [],
              modification_tbl := modification_tbl st @ [], accepts := accepts st\<rparr>"
    "list_all2 (\<lambda>f r. fr_name r = fi_name f \<and> fr_size r = fi_size f \<and>
        fr_path r = fi_path f \<and> fr_repo r = repo \<and>
        fr_language r = Language_getByExt env (file_ext (fi_name f))) [] []"
    "fresh_ids (map fr_id (file_tbl st)) (map fr_id [])"
    "list_all2 (\<lambda>m r. mr_type r = mi_type m \<and>
        (\<exists>c \<in> set csaved. cm_hash c = mi_commit m \<and> mr_commit r = cm_id c) \<and>
        (\<exists>f \<in> set ([]::file_row list). fr_path f = mi_file m \<and> mr_file r = fr_id f))
       (concat (map (\<lambda>f. filter (\<lambda>m. mi_file m = fi_path f) mods) [])) []"
    by simp_all
  then show ?case
    by (intro exI [of _ "[]::file_row list"] exI [of _ "[]::modification_row list"]
        exI [of _ "accepts st"] conjI)
next
  case (Cons f fs)
  from save_files_Cons [OF Cons.prems] obtain fileSaved st1 accM' st2 where
    s: "File_save (fi_name f) (fi_size f) (fi_path f) repo
       (Language_getByExt env (file_ext (fi_name f))) st = (Inr fileSaved, st1)" and
    m: "save_file_modifications csaved (fr_id fileSaved)
       (filter (\<lambda>m. mi_file m = fi_path f) mods) accM st1 = (Inr accM', st2)" and
    r: "save_files env repo csaved mods fs (accF @ [fileSaved]) accM' st2 =
       (Inr (outF, outM), st')"
    by blast
  from File_save_ok [OF s] obtain a1 where row:
    "fr_id fileSaved = fresh_id (map fr_id (file_tbl st))" "fr_name fileSaved = fi_name f"
    "fr_size fileSaved = fi_size f" "fr_path fileSaved = fi_path f" "fr_repo fileSaved = repo"
    "fr_language fileSaved = Language_getByExt env (file_ext (fi_name f))" and
    st1: "st1 = st\<lparr>file_tbl := file_tbl st @ [fileSaved], accepts := a1\<rparr>"
    by blast
  from save_file_modifications_ok [OF m] obtain rows1 a2 where inner:
    "accM' = accM @ rows1"
    "st2 = st1\<lparr>modification_tbl := modification_tbl st1 @ rows1, accepts := a2\<rparr>"
    "list_all2 (\<lambda>m r. mr_type r = mi_type m \<and> mr_file r = fr_id fileSaved \<and>
        (\<exists>c \<in> set csaved. cm_hash c = mi_commit m \<and> mr_commit r = cm_id c))
       (filter (\<lambda>m. mi_file m = fi_path f) mods) rows1"
    by blast
  from Cons.IH [OF r] obtain rowsF rowsM a where ih:
    "outF = (accF @ [fileSaved]) @ rowsF" "outM = accM' @ rowsM"
    "st' = st2\<lparr>file_tbl := file_tbl st2 @ rowsF,
              modification_tbl := modification_tbl st2 @ rowsM, accepts := a\<rparr>"
    "list_all2 (\<lambda>f r. fr_name r = fi_name f \<and> fr_size r = fi_size f \<and>
        fr_path r = fi_path f \<and> fr_repo r = repo \<and>
        fr_language r = Language_getByExt env (file_ext (fi_name f))) fs rowsF"
    "fresh_ids (map fr_id (file_tbl st2)) (map fr_id rowsF)"
    "list_all2 (\<lambda>m r. mr_type r = mi_type m \<and>
        (\<exists>c \<in> set csaved. cm_hash c = mi_commit m \<and> mr_commit r = cm_id c) \<and>
        (\<exists>f \<in> set rowsF. fr_path f = mi_file m \<and> mr_file r = fr_id f))
       (concat (map (\<lambda>f. filter (\<lambda>m. mi_file m = fi_path f) mods) fs)) rowsM"
    by blast
  have 1: "outF = accF @ (fileSaved # rowsF)"
    using ih(1) by simp
  have 2: "outM = accM @ (rows1 @ rowsM)"
    using ih(2) inner(1) by simp
  have 3: "st' = st\<lparr>file_tbl := file_tbl st @ (fileSaved # rowsF),
       modification_tbl := modification_tbl st @ (rows1 @ rowsM), accepts := a\<rparr>"
    using ih(3) by (simp add: inner(2) st1)
  have 4: "list_all2 (\<lambda>f r. fr_name r = fi_name f \<and> fr_size r = fi_size f \<and>
        fr_path r = fi_path f \<and> fr_repo r = repo \<and>
        fr_language r = Language_getByExt env (file_ext (fi_name f))) (f # fs) (fileSaved # rowsF)"
    using ih(4) row by simp
  have 5: "fresh_ids (map fr_id (file_tbl st)) (map fr_id (fileSaved # rowsF))"
    using ih(5) by (simp add: inner(2) st1 row fresh_ids_Cons)
  have a: "list_all2 (\<lambda>m r. mr_type r = mi_type m \<and>
        (\<exists>c \<in> set csaved. cm_hash c = mi_commit m \<and> mr_commit r = cm_id c) \<and>
        (\<exists>f \<in> set (fileSaved # rowsF). fr_path f = mi_file m \<and> mr_file r = fr_id f))
       (filter (\<lambda>m. mi_file m = fi_path f) mods) rows1"
    by (rule list.rel_mono_strong [OF inner(3)]) (use row(4) in auto)
  have b: "list_all2 (\<lambda>m r. mr_type r = mi_type m \<and>
        (\<exists>c \<in> set csaved. cm_hash c = mi_commit m \<and> mr_commit r = cm_id c) \<and>
        (\<exists>f \<in> set (fileSaved # rowsF). fr_path f = mi_file m \<and> mr_file r = fr_id f))
       (concat (map (\<lambda>f. filter (\<lambda>m. mi_file m = fi_path f) mods) fs)) rowsM"
    by (rule list.rel_mono_strong [OF ih(6)]) auto
  have 6: "list_all2 (\<lambda>m r. mr_type r = mi_type m \<and>
        (\<exists>c \<in> set csaved. cm_hash c = mi_commit m \<and> mr_commit r = cm_id c) \<and>
        (\<exists>f \<in> set (fileSaved # rowsF). fr_path f = mi_file m \<and> mr_file r = fr_id f))
       (concat (map (\<lambda>f. filter (\<lambda>m. mi_file m = fi_path f) mods) (f # fs))) (rows1 @ rowsM)"
    using list_all2_appendI [OF a b] by simp
  show ?case
    by (intro exI [of _ "fileSaved # rowsF"] exI [of _ "rows1 @ rowsM"] exI [of _ a]
        conjI 1 2 3 4 5 6)
qed

lemma save_deleted_Cons:
  "save_deleted repo csaved (m # ms) accM st = (Inr outM, st') \<Longrightarrow>
   \<exists>c fileSaved st1 row st2. find (\<lambda>c. cm_hash c = mi_commit m) csaved = Some c \<and>
     File_save (file_name_of_path (mi_file m)) (SizeStr ''N/A'') (mi_file m) repo None st =
       (Inr fileSaved, st1) \<and>
     Modification_save (mi_type m) (cm_id c) (fr_id fileSaved) st1 = (Inr row, st2) \<and>
     save_deleted repo csaved ms (accM @ [row]) st2 = (Inr outM, st')"
  by (auto simp: Let_def split: prod.splits sum.splits option.splits)

lemma save_deleted_ok:
  "save_deleted repo csaved ms accM st = (Inr outM, st') \<Longrightarrow>
   \<exists>rowsF rowsM a. outM = accM @ rowsM \<and>
     st' = st\<lparr>file_tbl := file_tbl st @ rowsF,
              modification_tbl := modification_tbl st @ rowsM, accepts := a\<rparr> \<and>
     list_all2 (\<lambda>m f. fr_name f = file_name_of_path (mi_file m) \<and>
        fr_size f = SizeStr ''N/A'' \<and> fr_path f = mi_file m \<and> fr_repo f = repo \<and>
        fr_language f = None) ms rowsF \<and>
     fresh_ids (map fr_id (file_tbl st)) (map fr_id rowsF) \<and>
     list_all2 (\<lambda>m r. mr_type r = mi_type m \<and>
        (\<exists>c \<in> set csaved. cm_hash c = mi_commit m \<and> mr_commit r = cm_id c)) ms rowsM \<and>
     map mr_file rowsM = map fr_id rowsF"
proof (induction ms arbitrary: accM st)
  case Nil
  then have "outM = accM @ []"
    "st' = st\<lparr>file_tbl := file_tbl st @ [],
              modification_tbl := modification_tbl st @ [], accepts := accepts st\<rparr>"
    "list_all2 (\<lambda>m f. fr_name f = file_name_of_path (mi_file m) \<and>
        fr_size f = SizeStr ''N/A'' \<and> fr_path f = mi_file m \<and> fr_repo f = repo \<and>
        fr_language f = None) [] ([]::file_row list)"
    "fresh_ids (map fr_id (file_tbl st)) (map fr_id [])"
    "list_all2 (\<lambda>m r. mr_type r = mi_type m \<and>
        (\<exists>c \<in> set csaved. cm_hash c = mi_commit m \<and> mr_commit r = cm_id c)) []
       ([]::modification_row list)"
    "map mr_file ([]::modification_row list) = map fr_id ([]::file_row list)"
    by simp_all
  then show ?case
    by (intro exI [of _ "[]::file_row list"] exI [of _ "[]::modification_row list"]
        exI [of _ "accepts st"] conjI)
next
  case (Cons m ms)
  from save_deleted_Cons [OF Cons.prems] obtain c :: commit_row and fileSaved st1 row st2 where
    c: "find (\<lambda>c. cm_hash c = mi_commit m) csaved = Some c" and
    s: "File_save (file_name_of_path (mi_file m)) (SizeStr ''N/A'') (mi_file m) repo None st =
       (Inr fileSaved, st1)" and
    t: "Modification_save (mi_type m) (cm_id c) (fr_id fileSaved) st1 = (Inr row, st2)" and
    r: "save_deleted repo csaved ms (accM @ [row]) st2 = (Inr outM, st')"
    by blast
  from find_SomeD [OF c] have c': "c \<in> set csaved" "cm_hash c = mi_commit m"
    by simp_all
  from File_save_ok [OF s] obtain a1 where frow:
    "fr_id fileSaved = fresh_id (map fr_id (file_tbl st))"
    "fr_name fileSaved = file_name_of_path (mi_file m)"
    "fr_size fileSaved = SizeStr ''N/A''" "fr_path fileSaved = mi_file m"
    "fr_repo fileSaved = repo" "fr_language fileSaved = None" and
    st1: "st1 = st\<lparr>file_tbl := file_tbl st @ [fileSaved], accepts := a1\<rparr>"
    by blast
  from Modification_save_ok [OF t] obtain a2 where row: "mr_type row = mi_type m"
    "mr_commit row = cm_id c" "mr_file row = fr_id fileSaved" and
    st2: "st2 = st1\<lparr>modification_tbl := modification_tbl st1 @ [row], accepts := a2\<rparr>"
    by blast
  from Cons.IH [OF r] obtain rowsF rowsM a where ih:
    "outM = (accM @ [row]) @ rowsM"
    "st' = st2\<lparr>file_tbl := file_tbl st2 @ rowsF,
              modification_tbl := modification_tbl st2 @ rowsM, accepts := a\<rparr>"
    "list_all2 (\<lambda>m f. fr_name f = file_name_of_path (mi_file m) \<and>
        fr_size f = SizeStr ''N/A'' \<and> fr_path f = mi_file m \<and> fr_repo f = repo \<and>
        fr_language f = None) ms rowsF"
    "fresh_ids (map fr_id (file_tbl st2)) (map fr_id rowsF)"
    "list_all2 (\<lambda>m r. mr_type r = mi_type m \<and>
        (\<exists>c \<in> set csaved. cm_hash c = mi_commit m \<and> mr_commit r = cm_id c)) ms rowsM"
    "map mr_file rowsM = map fr_id rowsF"
    by blast
  have 1: "outM = accM @ (row # rowsM)"
    using ih(1) by simp
  have 2: "st' = st\<lparr>file_tbl := file_tbl st @ (fileSaved # rowsF),
       modification_tbl := modification_tbl st @ (row # rowsM), accepts := a\<rparr>"
    using ih(2) by (simp add: st2 st1)
  have 3: "list_all2 (\<lambda>m f. fr_name f = file_name_of_path (mi_file m) \<and>
        fr_size f = SizeStr ''N/A'' \<and> fr_path f = mi_file m \<and> fr_repo f = repo \<and>
        fr_language f = None) (m # ms) (fileSaved # rowsF)"
    using ih(3) frow by simp
  have 4: "fresh_ids (map fr_id (file_tbl st)) (map fr_id (fileSaved # rowsF))"
    using ih(4) by (simp add: st2 st1 frow fresh_ids_Cons)
  have 5: "list_all2 (\<lambda>m r. mr_type r = mi_type m \<and>
        (\<exists>c \<in> set csaved. cm_hash c = mi_commit m \<and> mr_commit r = cm_id c))
       (m # ms) (row # rowsM)"
    using ih(5) row c' by auto
  have 6: "map mr_file (row # rowsM) = map fr_id (fileSaved # rowsF)"
    using ih(6) row(3) by simp
  show ?case
    by (intro exI [of _ "fileSaved # rowsF"] exI [of _ "row # rowsM"] exI [of _ a]
        conjI 1 2 3 4 5 6)
qed

lemma cascade_steps:
  assumes "cascade env repoData user info st = (Inr res, st')"
  shows "\<exists>repoSaved st1 st2 contributorsSaved st3 branchesSaved st4 commitsSaved st5
      filesSaved modificationsSaved st6 modificationsSaved'.
    Repository_save (rd_name repoData) (rd_description repoData) user st = (Inr repoSaved, st1) \<and>
    save_repo_languages (rr_id repoSaved) (rd_languages repoData) st1 = (Inr (), st2) \<and>
    save_contributors (rr_id repoSaved) (ex_contributors info) [] st2 =
      (Inr contributorsSaved, st3) \<and>
    save_branches (rr_id repoSaved) (ex_branches info) [] st3 = (Inr branchesSaved, st4) \<and>
    save_commits (rr_id repoSaved) contributorsSaved branchesSaved (ex_commits info) [] st4 =
      (Inr commitsSaved, st5) \<and>
    save_files env (rr_id repoSaved) commitsSaved (ex_modifications info) (ex_files info)
      [] [] st5 = (Inr (filesSaved, modificationsSaved), st6) \<and>
    save_deleted (rr_id repoSaved) commitsSaved
      (deletedFilesModifications filesSaved (ex_modifications info)) modificationsSaved st6 =
      (Inr modificationsSaved', st') \<and>
    res = Success"
  using assms unfolding cascade_def
  by (auto split: prod.splits sum.splits)

lemma deletedFilesModifications_paths:
  "deletedFilesModifications filesSaved mods =
     filter (\<lambda>m. mi_file m \<notin> fr_path ` set filesSaved) mods"
  unfolding deletedFilesModifications_def
  by (intro filter_cong refl) (fastforce simp: list_ex_iff image_iff)

lemma cascade_ok:
  assumes "cascade env repoData user info st = (Inr res, st')"
  obtains repoSaved and contributorsSaved :: "contributor_row list"
    and branchesSaved commitsSaved F6 M6 F8 M8 where
    "res = Success"
    "repository_tbl st' = repository_tbl st @ [repoSaved]"
    "rr_name repoSaved = rd_name repoData" "rr_description repoSaved = rd_description repoData"
    "rr_user_owner repoSaved = user"
    "map cr_name contributorsSaved = ex_contributors info"
    "branch_tbl st' = branch_tbl st @ branchesSaved"
    "map br_name branchesSaved = map bi_name (ex_branches info)"
    "fresh_ids (map br_id (branch_tbl st)) (map br_id branchesSaved)"
    "commit_tbl st' = commit_tbl st @ commitsSaved"
    "map cm_hash commitsSaved = map ci_hash (ex_commits info)"
    "\<forall>r \<in> set commitsSaved. cm_repo r = rr_id repoSaved"
    "fresh_ids (map cm_id (commit_tbl st)) (map cm_id commitsSaved)"
    "commit_branch_tbl st' = commit_branch_tbl st @
       concat (map2 (commit_branch_rows branchesSaved) (ex_commits info) commitsSaved)"
    "file_tbl st' = file_tbl st @ F6 @ F8"
    "list_all2 (\<lambda>f r. fr_name r = fi_name f \<and> fr_size r = fi_size f \<and>
        fr_path r = fi_path f \<and> fr_repo r = rr_id repoSaved \<and>
        fr_language r = Language_getByExt env (file_ext (fi_name f))) (ex_files info) F6"
    "list_all2 (\<lambda>m f. fr_name f = file_name_of_path (mi_file m) \<and>
        fr_size f = SizeStr ''N/A'' \<and> fr_path f = mi_file m \<and> fr_repo f = rr_id repoSaved \<and>
        fr_language f = None)
       (filter (\<lambda>m. mi_file m \<notin> fi_path ` set (ex_files info)) (ex_modifications info)) F8"
    "fresh_ids (map fr_id (file_tbl st)) (map fr_id (F6 @ F8))"
    "modification_tbl st' = modification_tbl st @ M6 @ M8"
    "list_all2 (\<lambda>m r. mr_type r = mi_type m \<and>
        (\<exists>c \<in> set commitsSaved. cm_hash c = mi_commit m \<and> mr_commit r = cm_id c) \<and>
        (\<exists>f \<in> set F6. fr_path f = mi_file m \<and> mr_file r = fr_id f))
       (concat (map (\<lambda>f. filter (\<lambda>m. mi_file m = fi_path f) (ex_modifications info))
          (ex_files info))) M6"
    "list_all2 (\<lambda>m r. mr_type r = mi_type m \<and>
        (\<exists>c \<in> set commitsSaved. cm_hash c = mi_commit m \<and> mr_commit r = cm_id c))
       (filter (\<lambda>m. mi_file m \<notin> fi_path ` set (ex_files info)) (ex_modifications info)) M8"
    "map mr_file M8 = map fr_id F8"
proof -
  from cascade_steps [OF assms] obtain repoSaved st1 st2 contributorsSaved st3 branchesSaved
    st4 commitsSaved st5 filesSaved modificationsSaved st6 modificationsSaved' where
    s1: "Repository_save (rd_name repoData) (rd_description repoData) user st =
      (Inr repoSaved, st1)" and
    s2: "save_repo_languages (rr_id repoSaved) (rd_languages repoData) st1 = (Inr (), st2)" and
    s3: "save_contributors (rr_id repoSaved) (ex_contributors info) [] st2 =
      (Inr contributorsSaved, st3)" and
    s4: "save_branches (rr_id repoSaved) (ex_branches info) [] st3 = (Inr branchesSaved, st4)" and
    s5: "save_commits (rr_id repoSaved) contributorsSaved branchesSaved (ex_commits info) [] st4 =
      (Inr commitsSaved, st5)" and
    s6: "save_files env (rr_id repoSaved) commitsSaved (ex_modifications info) (ex_files info)
      [] [] st5 = (Inr (filesSaved, modificationsSaved), st6)" and
    s7: "save_deleted (rr_id repoSaved) commitsSaved
      (deletedFilesModifications filesSaved (ex_modifications info)) modificationsSaved st6 =
      (Inr modificationsSaved', st')" and
    res: "res = Success"
    by blast
  from Repository_save_ok [OF s1] obtain a1 where repo:
    "rr_name repoSaved = rd_name repoData" "rr_description repoSaved = rd_description repoData"
    "rr_user_owner repoSaved = user" and
    st1: "st1 = st\<lparr>repository_tbl := repository_tbl st @ [repoSaved], accepts := a1\<rparr>"
    by blast
  from save_repo_languages_ok [OF s2] obtain a2 where
    st2: "st2 = st1\<lparr>repository_language_tbl := repository_language_tbl st1 @
        map (\<lambda>l. \<lparr>rl_repo = rr_id repoSaved, rl_language = l\<rparr>) (rd_languages repoData),
      accepts := a2\<rparr>"
    by blast
  from save_contributors_ok [OF s3] obtain rows3 a3 where c3:
    "contributorsSaved = [] @ rows3"
    "map cr_name rows3 = ex_contributors info" and
    st3: "st3 = st2\<lparr>contributor_tbl := contributor_tbl st2 @ rows3, accepts := a3\<rparr>"
    by blast
  from save_branches_ok [OF s4] obtain rows4 a4 where c4:
    "branchesSaved = [] @ rows4"
    "map br_name rows4 = map bi_name (ex_branches info)"
    "fresh_ids (map br_id (branch_tbl st3)) (map br_id rows4)" and
    st4: "st4 = st3\<lparr>branch_tbl := branch_tbl st3 @ rows4, accepts := a4\<rparr>"
    by blast
  from save_commits_ok [OF s5] obtain rows5 a5 where c5:
    "commitsSaved = [] @ rows5"
    "map cm_hash rows5 = map ci_hash (ex_commits info)"
    "\<forall>r \<in> set rows5. cm_repo r = rr_id repoSaved"
    "fresh_ids (map cm_id (commit_tbl st4)) (map cm_id rows5)" and
    st5: "st5 = st4\<lparr>commit_tbl := commit_tbl st4 @ rows5,
              commit_branch_tbl := commit_branch_tbl st4 @
                concat (map2 (commit_branch_rows branchesSaved) (ex_commits info) rows5),
              accepts := a5\<rparr>"
    by blast
  from save_files_ok [OF s6] obtain F6 M6 a6 where c6:
    "filesSaved = [] @ F6" "modificationsSaved = [] @ M6"
    "list_all2 (\<lambda>f r. fr_name r = fi_name f \<and> fr_size r = fi_size f \<and>
        fr_path r = fi_path f \<and> fr_repo r = rr_id repoSaved \<and>
        fr_language r = Language_getByExt env (file_ext (fi_name f))) (ex_files info) F6"
    "fresh_ids (map fr_id (file_tbl st5)) (map fr_id F6)"
    "list_all2 (\<lambda>m r. mr_type r = mi_type m \<and>
        (\<exists>c \<in> set commitsSaved. cm_hash c = mi_commit m \<and> mr_commit r = cm_id c) \<and>
        (\<exists>f \<in> set F6. fr_path f = mi_file m \<and> mr_file r = fr_id f))
       (concat (map (\<lambda>f. filter (\<lambda>m. mi_file m = fi_path f) (ex_modifications info))
          (ex_files info))) M6" and
    st6: "st6 = st5\<lparr>file_tbl := file_tbl st5 @ F6,
              modification_tbl := modification_tbl st5 @ M6, accepts := a6\<rparr>"
    by blast
  from save_deleted_ok [OF s7] obtain F8 M8 a7 where c7:
    "modificationsSaved' = modificationsSaved @ M8"
    "list_all2 (\<lambda>m f. fr_name f = file_name_of_path (mi_file m) \<and>
        fr_size f = SizeStr ''N/A'' \<and> fr_path f = mi_file m \<and> fr_repo f = rr_id repoSaved \<and>
        fr_language f = None) (deletedFilesModifications filesSaved (ex_modifications info)) F8"
    "fresh_ids (map fr_id (file_tbl st6)) (map fr_id F8)"
    "list_all2 (\<lambda>m r. mr_type r = mi_type m \<and>
        (\<exists>c \<in> set commitsSaved. cm_hash c = mi_commit m \<and> mr_commit r = cm_id c))
       (deletedFilesModifications filesSaved (ex_modifications info)) M8"
    "map mr_file M8 = map fr_id F8" and
    st7: "st' = st6\<lparr>file_tbl := file_tbl st6 @ F8,
              modification_tbl := modification_tbl st6 @ M8, accepts := a7\<rparr>"
    by blast
  note sts = st7 st6 st5 st4 st3 st2 st1
  have paths: "map fr_path F6 = map fi_path (ex_files info)"
    using c6(3) by (induction rule: list_all2_induct) auto
  have "fr_path ` set F6 = fi_path ` set (ex_files info)"
    using arg_cong [OF paths, of set] by simp
  then have del: "deletedFilesModifications filesSaved (ex_modifications info) =
     filter (\<lambda>m. mi_file m \<notin> fi_path ` set (ex_files info)) (ex_modifications info)"
    using c6(1) by (simp add: deletedFilesModifications_paths)
  have t1: "repository_tbl st' = repository_tbl st @ [repoSaved]"
    by (simp add: sts)
  have t4: "branch_tbl st' = branch_tbl st @ branchesSaved"
    using c4(1) by (simp add: sts)
  have f4: "fresh_ids (map br_id (branch_tbl st)) (map br_id branchesSaved)"
    using c4(1,3) by (simp add: st3 st2 st1)
  have t5: "commit_tbl st' = commit_tbl st @ commitsSaved"
    using c5(1) by (simp add: sts)
  have f5: "fresh_ids (map cm_id (commit_tbl st)) (map cm_id commitsSaved)"
    using c5(1,4) by (simp add: st4 st3 st2 st1)
  have t5b: "commit_branch_tbl st' = commit_branch_tbl st @
       concat (map2 (commit_branch_rows branchesSaved) (ex_commits info) commitsSaved)"
    using c5(1) by (simp add: sts)
  have t6: "file_tbl st' = file_tbl st @ F6 @ F8"
    by (simp add: sts)
  have "fresh_ids (map fr_id (file_tbl st)) (map fr_id F6)"
    using c6(4) by (simp add: st5 st4 st3 st2 st1)
  moreover have "fresh_ids (map fr_id (file_tbl st) @ map fr_id F6) (map fr_id F8)"
    using c7(3) by (simp add: st6 st5 st4 st3 st2 st1)
  ultimately have f6: "fresh_ids (map fr_id (file_tbl st)) (map fr_id (F6 @ F8))"
    by (simp add: fresh_ids_append)
  have t7: "modification_tbl st' = modification_tbl st @ M6 @ M8"
    by (simp add: sts)
  have n3: "map cr_name contributorsSaved = ex_contributors info"
    using c3 by simp
  have n4: "map br_name branchesSaved = map bi_name (ex_branches info)"
    using c4(1,2) by simp
  have n5: "map cm_hash commitsSaved = map ci_hash (ex_commits info)"
    "\<forall>r \<in> set commitsSaved. cm_repo r = rr_id repoSaved"
    using c5(1,2,3) by simp_all
  show ?thesis
    by (rule that [OF res t1 repo n3 t4 n4 f4 t5 n5 f5 t5b t6 c6(3) c7(2) [unfolded del] f6 t7
          c6(5) c7(4) [unfolded del] c7(5)])
qed

lemma createRepository_SuccessD:
  assumes "createRepository env repoData token st = (Inr Success, st')"
  shows "\<exists>user. validation env repoData token = Inr user \<and>
     checkIfExistsInBackend env (rd_name repoData) \<and>
     \<not> checkIfUserHasRepo (rd_name repoData) user st \<and>
     check_languages env (rd_languages repoData) = None \<and>
     cascade env repoData user (repoInfo env (rd_name repoData)) st = (Inr Success, st')"
proof (cases "validation env repoData token")
  case (Inl err)
  with assms show ?thesis by (simp add: createRepository_def)
next
  case (Inr user)
  show ?thesis
  proof (cases "check_languages env (rd_languages repoData)")
    case None
    with assms Inr show ?thesis
      by (simp add: createRepository_def split: if_splits)
  next
    case (Some err)
    from check_languages_Some [OF Some] have "err \<noteq> Success" by auto
    with assms Inr Some show ?thesis
      by (simp add: createRepository_def split: if_splits)
  qed
qed

lemma lastIndexOf_from_spec:
  "(c \<notin> set s \<and> lastIndexOf_from s c i found = found) \<or>
   (\<exists>k < length s. lastIndexOf_from s c i found = i + int k \<and> s ! k = c \<and>
      c \<notin> set (drop (Suc k) s))"
proof (induction s arbitrary: i found)
  case Nil
  show ?case by simp
next
  case (Cons x s)
  from Cons.IH [of "i + 1" "if x = c then i else found"]
  show ?case
  proof (elim disjE conjE exE)
    assume "c \<notin> set s"
      "lastIndexOf_from s c (i + 1) (if x = c then i else found) = (if x = c then i else found)"
    then show ?thesis
      by (cases "x = c") (auto intro: exI [of _ 0])
  next
    fix k
    assume "k < length s"
      "lastIndexOf_from s c (i + 1) (if x = c then i else found) = i + 1 + int k"
      "s ! k = c" "c \<notin> set (drop (Suc k) s)"
    then show ?thesis
      by (intro disjI2 exI [of _ "Suc k"]) auto
  qed
qed

lemma slice_nat: "slice s (int k) = drop k s"
  by (auto simp: slice_def Let_def min_def)

lemma segment_after_last:
  "(c \<notin> set s \<and> slice s (lastIndexOf s c + 1) = s) \<or>
   (c \<in> set s \<and> (\<exists>pre. s = pre @ c # slice s (lastIndexOf s c + 1)) \<and>
      c \<notin> set (slice s (lastIndexOf s c + 1)))"
proof -
  from lastIndexOf_from_spec [of c s 0 "- 1"]
  show ?thesis
  proof (elim disjE conjE exE)
    assume "c \<notin> set s" "lastIndexOf_from s c 0 (- 1) = - 1"
    then show ?thesis
      using slice_nat [of s 0] by (simp add: lastIndexOf_def)
  next
    fix k
    assume k: "k < length s" "lastIndexOf_from s c 0 (- 1) = 0 + int k" "s ! k = c"
      "c \<notin> set (drop (Suc k) s)"
    then have "lastIndexOf s c + 1 = int (Suc k)"
      by (simp add: lastIndexOf_def)
    then have sl: "slice s (lastIndexOf s c + 1) = drop (Suc k) s"
      by (simp only: slice_nat)
    have "s = take k s @ s ! k # drop (Suc k) s"
      by (rule id_take_nth_drop [OF k(1)])
    then have "s = take k s @ c # slice s (lastIndexOf s c + 1)"
      by (simp only: k(3) sl)
    then have "\<exists>pre. s = pre @ c # slice s (lastIndexOf s c + 1)"
      by (rule exI)
    moreover have "c \<in> set s"
      using k(1,3) nth_mem by fastforce
    moreover have "c \<notin> set (slice s (lastIndexOf s c + 1))"
      unfolding sl by (rule k(4))
    ultimately show ?thesis by (intro disjI2 conjI)
  qed
qed

lemma file_ext_no_dot: "CHR ''.'' \<notin> set name \<Longrightarrow> file_ext name = name"
  using segment_after_last [of "CHR ''.''" name] by (auto simp: file_ext_def)


subsection \<open>The pre-checks return before any write\<close>

text \<open>
  Claim C4, as amended. When the token validates to a user who already owns a
  repository of the given name, \<open>createRepository\<close> returns the \<open>BAD_REQUEST\<close> error
  ``Usuario ya tiene el repositorio!'' (or, when the repository is missing in the
  backend, the \<open>NOT_FOUND\<close> error of that earlier check), and the store is unchanged.
  The service has no conflict class of errors.
\<close>

theorem createRepository_duplicate_ownership:
  assumes "validation env repoData token = Inr user"
    and "checkIfUserHasRepo (rd_name repoData) user st"
  shows "createRepository env repoData token st =
     (if checkIfExistsInBackend env (rd_name repoData)
      then (Inr (ServiceError ''Usuario ya tiene el repositorio!'' BAD_REQUEST), st)
      else (Inr (ServiceError ''Repositorio no existe en el servidor!'' NOT_FOUND), st))"
  using assms by (simp add: createRepository_def)

theorem createRepository_duplicate_ownership_witness:
  "validation (demo_env demo_info) (demo_repo []) ''tok'' = Inr 7 \<and>
   checkIfUserHasRepo (rd_name (demo_repo [])) 7 owned_store \<and>
   createRepository (demo_env demo_info) (demo_repo []) ''tok'' owned_store =
     (Inr (ServiceError ''Usuario ya tiene el repositorio!'' BAD_REQUEST), owned_store)"
proof -
  have v: "validation (demo_env demo_info) (demo_repo []) ''tok'' = Inr 7"
    by (simp add: demo_env_def)
  have h: "checkIfUserHasRepo (rd_name (demo_repo [])) 7 owned_store"
    by (simp add: checkIfUserHasRepo_def owned_store_def empty_store_def demo_repo_def)
  have e: "checkIfExistsInBackend (demo_env demo_info) (rd_name (demo_repo []))"
    by (simp add: demo_env_def demo_repo_def)
  show ?thesis
    using v h createRepository_duplicate_ownership [OF v h] e by simp
qed

text \<open>
  The claim as the specification words it asks for a conflict class of error and
  excludes \<open>BAD_REQUEST\<close>; on a duplicate the function returns \<open>BAD_REQUEST\<close>.
\<close>

theorem createRepository_duplicate_ownership_counterexample:
  "checkIfUserHasRepo ''demo'' 7 owned_store \<and>
   createRepository (demo_env demo_info) (demo_repo [''JavaScript'']) ''tok'' owned_store =
     (Inr (ServiceError ''Usuario ya tiene el repositorio!'' BAD_REQUEST), owned_store)"
  by (simp add: createRepository_def checkIfUserHasRepo_def owned_store_def empty_store_def
      demo_repo_def demo_env_def)

text \<open>
  Claim C8. When a declared language is absent from the language registry (and the
  checks that run before the language loop pass: the validation, the existence in the
  backend, the ownership), \<open>createRepository\<close> returns a \<open>NOT_FOUND\<close> error whose message
  names an absent language, and the store is unchanged.
\<close>

theorem createRepository_missing_language:
  assumes "validation env repoData token = Inr user"
    and "checkIfExistsInBackend env (rd_name repoData)"
    and "\<not> checkIfUserHasRepo (rd_name repoData) user st"
    and "\<exists>lang \<in> set (rd_languages repoData). \<not> Language_checkIfExists env lang"
  shows "\<exists>lang \<in> set (rd_languages repoData). \<not> Language_checkIfExists env lang \<and>
     createRepository env repoData token st =
       (Inr (ServiceError (''Lenguaje '' @ lang @ '' no existe en la base de datos!'') NOT_FOUND),
        st)"
proof -
  from assms(4) have "check_languages env (rd_languages repoData) \<noteq> None"
    by (simp add: check_languages_None)
  then obtain err where err: "check_languages env (rd_languages repoData) = Some err"
    by auto
  from check_languages_Some [OF err] obtain lang where
    "lang \<in> set (rd_languages repoData)" "\<not> Language_checkIfExists env lang"
    "err = ServiceError (''Lenguaje '' @ lang @ '' no existe en la base de datos!'') NOT_FOUND"
    by blast
  moreover have "createRepository env repoData token st = (Inr err, st)"
    using assms(1-3) err by (simp add: createRepository_def)
  ultimately show ?thesis by blast
qed

theorem createRepository_missing_language_witness:
  "createRepository (demo_env demo_info) (demo_repo [''JavaScript'', ''Cobol'']) ''tok''
     empty_store =
     (Inr (ServiceError ''Lenguaje Cobol no existe en la base de datos!'' NOT_FOUND), empty_store)"
proof -
  have v: "validation (demo_env demo_info) (demo_repo [''JavaScript'', ''Cobol'']) ''tok'' = Inr 7"
    by (simp add: demo_env_def)
  have e: "checkIfExistsInBackend (demo_env demo_info)
      (rd_name (demo_repo [''JavaScript'', ''Cobol'']))"
    by (simp add: demo_env_def demo_repo_def)
  have h: "\<not> checkIfUserHasRepo (rd_name (demo_repo [''JavaScript'', ''Cobol''])) 7 empty_store"
    by (simp add: checkIfUserHasRepo_def empty_store_def)
  have l: "\<exists>lang \<in> set (rd_languages (demo_repo [''JavaScript'', ''Cobol''])).
      \<not> Language_checkIfExists (demo_env demo_info) lang"
    by (simp add: demo_env_def demo_repo_def)
  show ?thesis
    using createRepository_missing_language [OF v e h l]
    by (auto simp: demo_env_def demo_repo_def)
qed

subsection \<open>Files and their languages\<close>

text \<open>
  Claim C10. For an extracted file whose name has no \<open>.\<close>, the extension computed
  for the registry lookup is the whole name, so in a completed ingestion the saved
  file's language is what the registry gives for the whole file name.
\<close>

theorem createRepository_dotless_file_language:
  assumes "createRepository env repoData token st = (Inr Success, st')"
    and "i < length (ex_files (repoInfo env (rd_name repoData)))"
    and "CHR ''.'' \<notin> set (fi_name (ex_files (repoInfo env (rd_name repoData)) ! i))"
  shows "file_ext (fi_name (ex_files (repoInfo env (rd_name repoData)) ! i)) =
       fi_name (ex_files (repoInfo env (rd_name repoData)) ! i) \<and>
     fr_name (created (file_tbl st) (file_tbl st') ! i) =
       fi_name (ex_files (repoInfo env (rd_name repoData)) ! i) \<and>
     fr_language (created (file_tbl st) (file_tbl st') ! i) =
       Language_getByExt env (fi_name (ex_files (repoInfo env (rd_name repoData)) ! i))"
proof -
  let ?info = "repoInfo env (rd_name repoData)"
  from createRepository_SuccessD [OF assms(1)] obtain user where
    "cascade env repoData user ?info st = (Inr Success, st')" by blast
  then obtain repoSaved :: repository_row and F6 F8 where
    t: "file_tbl st' = file_tbl st @ F6 @ F8" and
    l: "list_all2 (\<lambda>f r. fr_name r = fi_name f \<and> fr_size r = fi_size f \<and>
        fr_path r = fi_path f \<and> fr_repo r = rr_id repoSaved \<and>
        fr_language r = Language_getByExt env (file_ext (fi_name f))) (ex_files ?info) F6"
    by (rule cascade_ok) blast
  from l have len: "length F6 = length (ex_files ?info)"
    by (simp add: list_all2_lengthD)
  from list_all2_nthD [OF l assms(2)] have
    "fr_name (F6 ! i) = fi_name (ex_files ?info ! i)"
    "fr_language (F6 ! i) = Language_getByExt env (file_ext (fi_name (ex_files ?info ! i)))"
    by simp_all
  moreover have "created (file_tbl st) (file_tbl st') ! i = F6 ! i"
    using assms(2) len by (simp add: t nth_append)
  ultimately show ?thesis
    using file_ext_no_dot [OF assms(3)] by simp
qed

lemma demo_run:
  "createRepository (demo_env demo_info) (demo_repo [''JavaScript'']) ''tok'' empty_store =
     (Inr Success, demo_final)"
  by (simp add: demo_defs save_defs demo_final_def)

theorem createRepository_dotless_file_language_witness:
  "createRepository (demo_env demo_info) (demo_repo [''JavaScript'']) ''tok'' empty_store =
     (Inr Success, demo_final) \<and>
   file_ext ''Makefile'' = ''Makefile'' \<and>
   fr_name (created (file_tbl empty_store) (file_tbl demo_final) ! 1) = ''Makefile'' \<and>
   fr_language (created (file_tbl empty_store) (file_tbl demo_final) ! 1) =
     Language_getByExt (demo_env demo_info) ''Makefile''"
proof -
  have i: "1 < length (ex_files (repoInfo (demo_env demo_info)
      (rd_name (demo_repo [''JavaScript'']))))"
    by (simp add: demo_env_def demo_info_def)
  have n: "fi_name (ex_files (repoInfo (demo_env demo_info)
      (rd_name (demo_repo [''JavaScript'']))) ! 1) = ''Makefile''"
    by (simp add: demo_env_def demo_info_def)
  have d: "CHR ''.'' \<notin> set (fi_name (ex_files (repoInfo (demo_env demo_info)
      (rd_name (demo_repo [''JavaScript'']))) ! 1))"
    unfolding n by simp
  show ?thesis
    using demo_run createRepository_dotless_file_language [OF demo_run i d]
    unfolding n by simp
qed

subsection \<open>The placeholder files of the reconciliation pass\<close>

text \<open>
  Claim C7. In a completed ingestion the files saved after those of the extracted
  file list are the placeholders of the reconciliation pass, one for each
  modification whose path is not the path of an extracted file, in order. Each has the
  size \<open>"N/A"\<close>, the path of its modification, no language, and as name the part of the
  path after its last \<open>/\<close> (the whole path when it has none).
\<close>

theorem createRepository_placeholder_files:
  assumes "createRepository env repoData token st = (Inr Success, st')"
  shows "map fr_path (drop (length (ex_files (repoInfo env (rd_name repoData))))
            (created (file_tbl st) (file_tbl st'))) =
         map mi_file (filter (\<lambda>m. mi_file m \<notin> fi_path ` set (ex_files (repoInfo env (rd_name repoData))))
            (ex_modifications (repoInfo env (rd_name repoData)))) \<and>
     (\<forall>f \<in> set (drop (length (ex_files (repoInfo env (rd_name repoData))))
            (created (file_tbl st) (file_tbl st'))).
        fr_size f = SizeStr ''N/A'' \<and> fr_language f = None \<and>
        fr_name f = file_name_of_path (fr_path f) \<and>
        CHR ''/'' \<notin> set (fr_name f) \<and>
        (fr_path f = fr_name f \<or> (\<exists>dir. fr_path f = dir @ CHR ''/'' # fr_name f)))"
proof -
  let ?info = "repoInfo env (rd_name repoData)"
  let ?orphans = "filter (\<lambda>m. mi_file m \<notin> fi_path ` set (ex_files ?info)) (ex_modifications ?info)"
  from createRepository_SuccessD [OF assms(1)] obtain user where
    "cascade env repoData user ?info st = (Inr Success, st')" by blast
  then obtain repoSaved :: repository_row and F6 F8 where
    t: "file_tbl st' = file_tbl st @ F6 @ F8" and
    l: "list_all2 (\<lambda>f r. fr_name r = fi_name f \<and> fr_size r = fi_size f \<and>
        fr_path r = fi_path f \<and> fr_repo r = rr_id repoSaved \<and>
        fr_language r = Language_getByExt env (file_ext (fi_name f))) (ex_files ?info) F6" and
    p: "list_all2 (\<lambda>m f. fr_name f = file_name_of_path (mi_file m) \<and>
        fr_size f = SizeStr ''N/A'' \<and> fr_path f = mi_file m \<and> fr_repo f = rr_id repoSaved \<and>
        fr_language f = None) ?orphans F8"
    by (rule cascade_ok) blast
  from l have len: "length F6 = length (ex_files ?info)"
    by (simp add: list_all2_lengthD)
  have d: "drop (length (ex_files ?info)) (created (file_tbl st) (file_tbl st')) = F8"
    using len by (simp add: t)
  have 1: "map fr_path F8 = map mi_file ?orphans"
    using p by (induction rule: list_all2_induct) auto
  have q: "\<forall>f \<in> set F8. fr_name f = file_name_of_path (fr_path f) \<and>
      fr_size f = SizeStr ''N/A'' \<and> fr_language f = None"
    using p by (induction rule: list_all2_induct) auto
  have 2: "fr_size f = SizeStr ''N/A'' \<and> fr_language f = None \<and>
        fr_name f = file_name_of_path (fr_path f) \<and>
        CHR ''/'' \<notin> set (fr_name f) \<and>
        (fr_path f = fr_name f \<or> (\<exists>dir. fr_path f = dir @ CHR ''/'' # fr_name f))"
    if "f \<in> set F8" for f
  proof -
    from q that have m: "fr_name f = file_name_of_path (fr_path f)"
      "fr_size f = SizeStr ''N/A''" "fr_language f = None"
      by blast+
    from segment_after_last [of "CHR ''/''" "fr_path f"]
    have "CHR ''/'' \<notin> set (file_name_of_path (fr_path f)) \<and>
        (fr_path f = file_name_of_path (fr_path f) \<or>
         (\<exists>dir. fr_path f = dir @ CHR ''/'' # file_name_of_path (fr_path f)))"
      unfolding file_name_of_path_def by auto
    with m show ?thesis by simp
  qed
  show ?thesis
    unfolding d using 1 2 by blast
qed

theorem createRepository_placeholder_files_witness:
  "createRepository (demo_env demo_info) (demo_repo [''JavaScript'']) ''tok'' empty_store =
     (Inr Success, demo_final) \<and>
   map fr_path (drop 2 (created (file_tbl empty_store) (file_tbl demo_final))) =
     [''old/util.py'', ''old/util.py''] \<and>
   map fr_name (drop 2 (created (file_tbl empty_store) (file_tbl demo_final))) =
     [''util.py'', ''util.py''] \<and>
   map fr_size (drop 2 (created (file_tbl empty_store) (file_tbl demo_final))) =
     [SizeStr ''N/A'', SizeStr ''N/A''] \<and>
   map fr_language (drop 2 (created (file_tbl empty_store) (file_tbl demo_final))) =
     [None, None]"
proof -
  have n: "length (ex_files (repoInfo (demo_env demo_info)
      (rd_name (demo_repo [''JavaScript''])))) = 2"
    by (simp add: demo_env_def demo_info_def)
  have "file_name_of_path ''old/util.py'' = ''util.py''"
    by (simp add: file_name_of_path_def slice_def lastIndexOf_def)
  then show ?thesis
    using demo_run createRepository_placeholder_files [OF demo_run]
    unfolding n by (simp add: created_def demo_final_def empty_store_def)
qed

subsection \<open>What the created modifications refer to\<close>

text \<open>
  Claim C6. In a completed ingestion, every modification row the call created refers to
  a file row of the final store, and every file row with that identifier belongs to
  the repository the call created; likewise for the commit it refers to. This
  includes the modifications whose path is not among the extracted files.
\<close>

theorem createRepository_modifications_reference:
  assumes "createRepository env repoData token st = (Inr Success, st')"
  shows "\<exists>repoSaved. created (repository_tbl st) (repository_tbl st') = [repoSaved] \<and>
     (\<forall>m \<in> set (filter
           (\<lambda>m. mi_file m \<notin> fi_path ` set (ex_files (repoInfo env (rd_name repoData))))
           (ex_modifications (repoInfo env (rd_name repoData)))).
        \<exists>r \<in> set (created (modification_tbl st) (modification_tbl st')).
          mr_type r = mi_type m \<and>
          (\<exists>f \<in> set (file_tbl st'). fr_id f = mr_file r \<and> fr_path f = mi_file m \<and>
             fr_repo f = rr_id repoSaved)) \<and>
     (\<forall>m \<in> set (created (modification_tbl st) (modification_tbl st')).
        (\<exists>f \<in> set (file_tbl st'). fr_id f = mr_file m) \<and>
        (\<forall>f \<in> set (file_tbl st'). fr_id f = mr_file m \<longrightarrow> fr_repo f = rr_id repoSaved) \<and>
        (\<exists>c \<in> set (commit_tbl st'). cm_id c = mr_commit m) \<and>
        (\<forall>c \<in> set (commit_tbl st'). cm_id c = mr_commit m \<longrightarrow> cm_repo c = rr_id repoSaved))"
proof -
  let ?info = "repoInfo env (rd_name repoData)"
  let ?orphans = "filter (\<lambda>m. mi_file m \<notin> fi_path ` set (ex_files ?info)) (ex_modifications ?info)"
  from createRepository_SuccessD [OF assms(1)] obtain user where
    "cascade env repoData user ?info st = (Inr Success, st')" by blast
  then obtain repoSaved :: repository_row and commitsSaved F6 M6 F8 M8 where
    r: "repository_tbl st' = repository_tbl st @ [repoSaved]" and
    c: "commit_tbl st' = commit_tbl st @ commitsSaved" and
    cr: "\<forall>r \<in> set commitsSaved. cm_repo r = rr_id repoSaved" and
    cf: "fresh_ids (map cm_id (commit_tbl st)) (map cm_id commitsSaved)" and
    t: "file_tbl st' = file_tbl st @ F6 @ F8" and
    l: "list_all2 (\<lambda>f r. fr_name r = fi_name f \<and> fr_size r = fi_size f \<and>
        fr_path r = fi_path f \<and> fr_repo r = rr_id repoSaved \<and>
        fr_language r = Language_getByExt env (file_ext (fi_name f))) (ex_files ?info) F6" and
    p: "list_all2 (\<lambda>m f. fr_name f = file_name_of_path (mi_file m) \<and>
        fr_size f = SizeStr ''N/A'' \<and> fr_path f = mi_file m \<and> fr_repo f = rr_id repoSaved \<and>
        fr_language f = None) ?orphans F8" and
    ff: "fresh_ids (map fr_id (file_tbl st)) (map fr_id (F6 @ F8))" and
    m: "modification_tbl st' = modification_tbl st @ M6 @ M8" and
    m6: "list_all2 (\<lambda>m r. mr_type r = mi_type m \<and>
        (\<exists>c \<in> set commitsSaved. cm_hash c = mi_commit m \<and> mr_commit r = cm_id c) \<and>
        (\<exists>f \<in> set F6. fr_path f = mi_file m \<and> mr_file r = fr_id f))
       (concat (map (\<lambda>f. filter (\<lambda>m. mi_file m = fi_path f) (ex_modifications ?info))
          (ex_files ?info))) M6" and
    m8: "list_all2 (\<lambda>m r. mr_type r = mi_type m \<and>
        (\<exists>c \<in> set commitsSaved. cm_hash c = mi_commit m \<and> mr_commit r = cm_id c))
       ?orphans M8" and
    mf: "map mr_file M8 = map fr_id F8"
    by (rule cascade_ok) blast
  have files_repo: "\<forall>f \<in> set (F6 @ F8). fr_repo f = rr_id repoSaved"
  proof -
    have "\<forall>f \<in> set F6. fr_repo f = rr_id repoSaved"
      using l by (induction rule: list_all2_induct) auto
    moreover have "\<forall>f \<in> set F8. fr_repo f = rr_id repoSaved"
      using p by (induction rule: list_all2_induct) auto
    ultimately show ?thesis by auto
  qed
  have new_file: "fr_repo f = rr_id repoSaved"
    if "f \<in> set (file_tbl st')" "fr_id f \<in> fr_id ` set (F6 @ F8)" for f
  proof (cases "f \<in> set (file_tbl st)")
    case True
    then have "fr_id f \<in> set (map fr_id (file_tbl st))" by simp
    from fresh_ids_above [OF ff this] that(2) show ?thesis by force
  next
    case False
    with that(1) have "f \<in> set (F6 @ F8)" by (simp add: t)
    with files_repo show ?thesis by blast
  qed
  have new_commit: "cm_repo k = rr_id repoSaved"
    if "k \<in> set (commit_tbl st')" "cm_id k \<in> cm_id ` set commitsSaved" for k
  proof (cases "k \<in> set (commit_tbl st)")
    case True
    then have "cm_id k \<in> set (map cm_id (commit_tbl st))" by simp
    from fresh_ids_above [OF cf this] that(2) show ?thesis by force
  next
    case False
    with that(1) have "k \<in> set commitsSaved" by (simp add: c)
    with cr show ?thesis by blast
  qed
  have ref6: "\<forall>r \<in> set M6. mr_file r \<in> fr_id ` set (F6 @ F8) \<and>
      mr_commit r \<in> cm_id ` set commitsSaved"
    using m6 by (induction rule: list_all2_induct) auto
  have "\<forall>r \<in> set M8. mr_commit r \<in> cm_id ` set commitsSaved"
    using m8 by (induction rule: list_all2_induct) auto
  moreover have "\<forall>r \<in> set M8. mr_file r \<in> fr_id ` set (F6 @ F8)"
  proof
    fix r assume "r \<in> set M8"
    then have "mr_file r \<in> set (map mr_file M8)" by simp
    then show "mr_file r \<in> fr_id ` set (F6 @ F8)"
      unfolding mf by auto
  qed
  ultimately have ref: "\<forall>r \<in> set (M6 @ M8). mr_file r \<in> fr_id ` set (F6 @ F8) \<and>
      mr_commit r \<in> cm_id ` set commitsSaved"
    using ref6 by auto
  have 1: "created (repository_tbl st) (repository_tbl st') = [repoSaved]"
    by (simp add: r)
  have 2: "\<exists>r \<in> set (created (modification_tbl st) (modification_tbl st')).
          mr_type r = mi_type x \<and>
          (\<exists>f \<in> set (file_tbl st'). fr_id f = mr_file r \<and> fr_path f = mi_file x \<and>
             fr_repo f = rr_id repoSaved)"
    if "x \<in> set ?orphans" for x
  proof -
    from that [unfolded in_set_conv_nth] obtain i where
      i: "i < length ?orphans" "?orphans ! i = x"
      by blast
    have len: "length M8 = length ?orphans" "length F8 = length ?orphans"
      using list_all2_lengthD [OF m8] list_all2_lengthD [OF p] by simp_all
    from list_all2_nthD [OF m8 i(1)] have ty: "mr_type (M8 ! i) = mi_type x"
      by (simp add: i(2))
    from list_all2_nthD [OF p i(1)] have fl: "fr_path (F8 ! i) = mi_file x"
      "fr_repo (F8 ! i) = rr_id repoSaved"
      by (simp_all add: i(2))
    have "map mr_file M8 ! i = map fr_id F8 ! i"
      by (simp only: mf)
    then have id: "fr_id (F8 ! i) = mr_file (M8 ! i)"
      using i(1) len by simp
    have "M8 ! i \<in> set (created (modification_tbl st) (modification_tbl st'))"
      using i(1) len by (simp add: m)
    moreover have "F8 ! i \<in> set (file_tbl st')"
      using i(1) len by (simp add: t)
    ultimately show ?thesis
      using ty fl id by blast
  qed
  have 3: "(\<exists>f \<in> set (file_tbl st'). fr_id f = mr_file x) \<and>
        (\<forall>f \<in> set (file_tbl st'). fr_id f = mr_file x \<longrightarrow> fr_repo f = rr_id repoSaved) \<and>
        (\<exists>c \<in> set (commit_tbl st'). cm_id c = mr_commit x) \<and>
        (\<forall>c \<in> set (commit_tbl st'). cm_id c = mr_commit x \<longrightarrow> cm_repo c = rr_id repoSaved)"
    if "x \<in> set (created (modification_tbl st) (modification_tbl st'))" for x
  proof -
    from that have "x \<in> set (M6 @ M8)" by (simp add: m)
    with ref have f: "mr_file x \<in> fr_id ` set (F6 @ F8)"
      and k: "mr_commit x \<in> cm_id ` set commitsSaved" by blast+
    from f have "\<exists>f \<in> set (file_tbl st'). fr_id f = mr_file x"
      unfolding t by auto
    moreover from k have "\<exists>c \<in> set (commit_tbl st'). cm_id c = mr_commit x"
      unfolding c by auto
    moreover have "\<forall>f \<in> set (file_tbl st'). fr_id f = mr_file x \<longrightarrow> fr_repo f = rr_id repoSaved"
      using new_file f by metis
    moreover have "\<forall>c \<in> set (commit_tbl st'). cm_id c = mr_commit x \<longrightarrow> cm_repo c = rr_id repoSaved"
      using new_commit k by metis
    ultimately show ?thesis by blast
  qed
  show ?thesis
    using 1 2 3 by (intro exI [of _ repoSaved]) blast
qed

theorem createRepository_modifications_reference_witness:
  "createRepository (demo_env demo_info) (demo_repo [''JavaScript'']) ''tok'' empty_store =
     (Inr Success, demo_final) \<and>
   (\<exists>repoSaved. created (repository_tbl empty_store) (repository_tbl demo_final) = [repoSaved] \<and>
     (\<forall>m \<in> set (filter
           (\<lambda>m. mi_file m \<notin> fi_path ` set (ex_files (repoInfo (demo_env demo_info)
              (rd_name (demo_repo [''JavaScript''])))))
           (ex_modifications (repoInfo (demo_env demo_info)
              (rd_name (demo_repo [''JavaScript'']))))).
        \<exists>r \<in> set (created (modification_tbl empty_store) (modification_tbl demo_final)).
          mr_type r = mi_type m \<and>
          (\<exists>f \<in> set (file_tbl demo_final). fr_id f = mr_file r \<and> fr_path f = mi_file m \<and>
             fr_repo f = rr_id repoSaved)) \<and>
     (\<forall>m \<in> set (created (modification_tbl empty_store) (modification_tbl demo_final)).
        (\<exists>f \<in> set (file_tbl demo_final). fr_id f = mr_file m) \<and>
        (\<forall>f \<in> set (file_tbl demo_final). fr_id f = mr_file m \<longrightarrow>
           fr_repo f = rr_id repoSaved) \<and>
        (\<exists>c \<in> set (commit_tbl demo_final). cm_id c = mr_commit m) \<and>
        (\<forall>c \<in> set (commit_tbl demo_final). cm_id c = mr_commit m \<longrightarrow>
           cm_repo c = rr_id repoSaved)))"
  by (rule conjI [OF demo_run createRepository_modifications_reference [OF demo_run]])

subsection \<open>Commits and their branches\<close>

lemma set_concat_map2:
  "r \<in> set (concat (map2 f xs ys)) \<longleftrightarrow>
     (\<exists>j. j < length xs \<and> j < length ys \<and> r \<in> set (f (xs ! j) (ys ! j)))"
  by (fastforce simp: set_zip)

lemma filter_concat_map2:
  assumes "length xs = length ys"
    and "distinct (map g ys)"
    and "i < length ys"
    and "\<And>x y r. r \<in> set (f x y) \<Longrightarrow> h r = g y"
  shows "filter (\<lambda>r. h r = g (ys ! i)) (concat (map2 f xs ys)) = f (xs ! i) (ys ! i)"
  using assms(1-3)
proof (induction xs ys arbitrary: i rule: list_induct2)
  case Nil
  then show ?case by simp
next
  case (Cons x xs y ys)
  from Cons.prems(1) have ny: "g y \<notin> g ` set ys" and d: "distinct (map g ys)"
    by simp_all
  have rest: "\<exists>y' \<in> set ys. h r = g y'" if "r \<in> set (concat (map2 f xs ys))" for r
    using that assms(4) by (auto simp: set_zip)
  show ?case
  proof (cases i)
    case 0
    have "filter (\<lambda>r. h r = g y) (f x y) = f x y"
      using assms(4) by (simp add: filter_id_conv)
    moreover have "h r \<noteq> g y" if "r \<in> set (concat (map2 f xs ys))" for r
    proof -
      from rest [OF that] obtain y' where "y' \<in> set ys" "h r = g y'" by blast
      with ny show ?thesis by (metis imageI)
    qed
    then have "filter (\<lambda>r. h r = g y) (concat (map2 f xs ys)) = []"
      unfolding filter_empty_conv by blast
    ultimately show ?thesis using 0 by simp
  next
    case (Suc j)
    with Cons.prems(2) have j: "j < length ys" by simp
    then have "ys ! j \<in> set ys" by simp
    with ny have "g y \<noteq> g (ys ! j)" by auto
    then have "filter (\<lambda>r. h r = g (ys ! j)) (f x y) = []"
      using assms(4) by (auto simp: filter_empty_conv)
    with Cons.IH [OF d j] Suc show ?thesis by simp
  qed
qed

text \<open>
  Claim C5. In a completed ingestion, for every extracted commit, the join rows
  created for the saved commit are exactly one row for each created branch whose name
  is in the commit's declared branch list, in the order of the branches, and no other
  row. Hence the branches those rows refer to are named by exactly the names that are
  both in the declared list and names of the branches created for the repository.
\<close>

theorem createRepository_commit_branches:
  assumes "createRepository env repoData token st = (Inr Success, st')"
    and "i < length (ex_commits (repoInfo env (rd_name repoData)))"
  shows "cm_hash (created (commit_tbl st) (commit_tbl st') ! i) =
       ci_hash (ex_commits (repoInfo env (rd_name repoData)) ! i) \<and>
     map br_name (created (branch_tbl st) (branch_tbl st')) =
       map bi_name (ex_branches (repoInfo env (rd_name repoData))) \<and>
     filter (\<lambda>r. cb_commit r = cm_id (created (commit_tbl st) (commit_tbl st') ! i))
         (created (commit_branch_tbl st) (commit_branch_tbl st')) =
       map (\<lambda>b. \<lparr>cb_commit = cm_id (created (commit_tbl st) (commit_tbl st') ! i),
                  cb_branch = br_id b\<rparr>)
         (filter (\<lambda>b. br_name b \<in>
              set (ci_branches (ex_commits (repoInfo env (rd_name repoData)) ! i)))
            (created (branch_tbl st) (branch_tbl st'))) \<and>
     br_name ` {b \<in> set (branch_tbl st').
        \<exists>r \<in> set (created (commit_branch_tbl st) (commit_branch_tbl st')).
          cb_commit r = cm_id (created (commit_tbl st) (commit_tbl st') ! i) \<and>
          cb_branch r = br_id b} =
       set (ci_branches (ex_commits (repoInfo env (rd_name repoData)) ! i)) \<inter>
       br_name ` set (created (branch_tbl st) (branch_tbl st'))"
proof -
  let ?info = "repoInfo env (rd_name repoData)"
  let ?c = "ex_commits ?info ! i"
  from createRepository_SuccessD [OF assms(1)] obtain user where
    "cascade env repoData user ?info st = (Inr Success, st')" by blast
  then obtain BS CS where
    b: "branch_tbl st' = branch_tbl st @ BS" and
    bn: "map br_name BS = map bi_name (ex_branches ?info)" and
    bf: "fresh_ids (map br_id (branch_tbl st)) (map br_id BS)" and
    c: "commit_tbl st' = commit_tbl st @ CS" and
    ch: "map cm_hash CS = map ci_hash (ex_commits ?info)" and
    cf: "fresh_ids (map cm_id (commit_tbl st)) (map cm_id CS)" and
    cb: "commit_branch_tbl st' = commit_branch_tbl st @
       concat (map2 (commit_branch_rows BS) (ex_commits ?info) CS)"
    by (rule cascade_ok) blast
  have len: "length CS = length (ex_commits ?info)"
    using arg_cong [OF ch, of length] by simp
  with assms(2) have i: "i < length CS" by simp
  let ?k = "CS ! i"
  have k: "created (commit_tbl st) (commit_tbl st') ! i = ?k"
    by (simp add: c)
  have 1: "cm_hash ?k = ci_hash ?c"
    using arg_cong [OF ch, of "\<lambda>xs. xs ! i"] i assms(2) by simp
  have 2: "map br_name (created (branch_tbl st) (branch_tbl st')) = map bi_name (ex_branches ?info)"
    by (simp add: b bn)
  have dc: "distinct (map cm_id CS)"
    by (rule fresh_ids_distinct [OF cf])
  have db: "distinct (map br_id BS)"
    by (rule fresh_ids_distinct [OF bf])
  have rows: "(\<exists>r \<in> set (created (commit_branch_tbl st) (commit_branch_tbl st')).
          cb_commit r = cm_id ?k \<and> cb_branch r = x) \<longleftrightarrow>
       (\<exists>b \<in> set BS. br_name b \<in> set (ci_branches ?c) \<and> x = br_id b)" for x
  proof
    assume "\<exists>r \<in> set (created (commit_branch_tbl st) (commit_branch_tbl st')).
          cb_commit r = cm_id ?k \<and> cb_branch r = x"
    then obtain r where r: "r \<in> set (concat (map2 (commit_branch_rows BS) (ex_commits ?info) CS))"
      "cb_commit r = cm_id ?k" "cb_branch r = x"
      unfolding cb created_append by blast
    from r(1) [unfolded set_concat_map2] obtain j where "j < length (ex_commits ?info)"
      "j < length CS" "r \<in> set (commit_branch_rows BS (ex_commits ?info ! j) (CS ! j))"
      by blast
    with r(2,3) have j: "j < length (ex_commits ?info)" "j < length CS"
      "r \<in> set (commit_branch_rows BS (ex_commits ?info ! j) (CS ! j))"
      "cb_commit r = cm_id ?k" "cb_branch r = x"
      by simp_all
    from j(3) obtain b' where b': "b' \<in> set BS"
      "br_name b' \<in> set (ci_branches (ex_commits ?info ! j))"
      "r = \<lparr>cb_commit = cm_id (CS ! j), cb_branch = br_id b'\<rparr>"
      unfolding commit_branch_rows_def by auto
    from b'(3) j(4) have "map cm_id CS ! j = map cm_id CS ! i"
      using i j(2) by simp
    then have "j = i"
      using nth_eq_iff_index_eq [OF dc, of j i] i j(2) by simp
    with b' j(5) show "\<exists>b \<in> set BS. br_name b \<in> set (ci_branches ?c) \<and> x = br_id b"
      by auto
  next
    assume "\<exists>b \<in> set BS. br_name b \<in> set (ci_branches ?c) \<and> x = br_id b"
    then obtain b' where b': "b' \<in> set BS" "br_name b' \<in> set (ci_branches ?c)" "x = br_id b'"
      by blast
    then have "\<lparr>cb_commit = cm_id ?k, cb_branch = x\<rparr> \<in>
        set (commit_branch_rows BS ?c ?k)"
      unfolding commit_branch_rows_def by auto
    with i assms(2) have "\<lparr>cb_commit = cm_id ?k, cb_branch = x\<rparr> \<in>
        set (concat (map2 (commit_branch_rows BS) (ex_commits ?info) CS))"
      unfolding set_concat_map2 by blast
    then have "\<lparr>cb_commit = cm_id ?k, cb_branch = x\<rparr> \<in>
        set (created (commit_branch_tbl st) (commit_branch_tbl st'))"
      unfolding cb created_append .
    then show "\<exists>r \<in> set (created (commit_branch_tbl st) (commit_branch_tbl st')).
          cb_commit r = cm_id ?k \<and> cb_branch r = x"
      by force
  qed
  have sel: "{b \<in> set (branch_tbl st').
        \<exists>r \<in> set (created (commit_branch_tbl st) (commit_branch_tbl st')).
          cb_commit r = cm_id ?k \<and> cb_branch r = br_id b} =
     {b \<in> set BS. br_name b \<in> set (ci_branches ?c)}" (is "?L = ?R")
  proof (intro set_eqI iffI)
    fix x assume "x \<in> ?L"
    then have x: "x \<in> set (branch_tbl st')" and
      "\<exists>b \<in> set BS. br_name b \<in> set (ci_branches ?c) \<and> br_id x = br_id b"
      unfolding rows by blast+
    then obtain b' where b': "b' \<in> set BS" "br_name b' \<in> set (ci_branches ?c)"
      "br_id x = br_id b'" by blast
    have "x \<in> set BS"
    proof (rule ccontr)
      assume "x \<notin> set BS"
      with x have "br_id x \<in> set (map br_id (branch_tbl st))" by (simp add: b)
      moreover have "br_id b' \<in> set (map br_id BS)" using b'(1) by simp
      ultimately have "br_id x < br_id b'" by (rule fresh_ids_above [OF bf])
      with b'(3) show False by simp
    qed
    with db b'(1,3) have "x = b'"
      by (simp add: distinct_map inj_on_def)
    with b' show "x \<in> ?R" by simp
  next
    fix x assume "x \<in> ?R"
    then show "x \<in> ?L" unfolding rows by (auto simp: b)
  qed
  have 3: "br_name ` {b \<in> set (branch_tbl st').
        \<exists>r \<in> set (created (commit_branch_tbl st) (commit_branch_tbl st')).
          cb_commit r = cm_id ?k \<and> cb_branch r = br_id b} =
       set (ci_branches ?c) \<inter> br_name ` set (created (branch_tbl st) (branch_tbl st'))"
    unfolding sel by (auto simp: b)
  have "filter (\<lambda>r. cb_commit r = cm_id ?k)
      (concat (map2 (commit_branch_rows BS) (ex_commits ?info) CS)) =
      commit_branch_rows BS ?c ?k"
    by (rule filter_concat_map2 [OF len [symmetric] dc i]) (auto simp: commit_branch_rows_def)
  then have 4: "filter (\<lambda>r. cb_commit r = cm_id ?k)
         (created (commit_branch_tbl st) (commit_branch_tbl st')) =
       map (\<lambda>b. \<lparr>cb_commit = cm_id ?k, cb_branch = br_id b\<rparr>)
         (filter (\<lambda>b. br_name b \<in> set (ci_branches ?c))
            (created (branch_tbl st) (branch_tbl st')))"
    by (simp add: cb b commit_branch_rows_def)
  show ?thesis
    unfolding k using 1 2 4 3 by (intro conjI)
qed


lemma twin_run:
  "createRepository (demo_env twin_info) (demo_repo []) ''tok'' empty_store =
     (Inr Success, twin_final)"
  by (simp add: demo_defs save_defs twin_info_def twin_final_def)

theorem createRepository_commit_branches_witness:
  "createRepository (demo_env twin_info) (demo_repo []) ''tok'' empty_store =
     (Inr Success, twin_final) \<and>
   0 < length (ex_commits twin_info) \<and>
   ci_branches (ex_commits twin_info ! 0) = [''main''] \<and>
   filter (\<lambda>r. cb_commit r = cm_id (created (commit_tbl empty_store) (commit_tbl twin_final) ! 0))
       (created (commit_branch_tbl empty_store) (commit_branch_tbl twin_final)) =
     [\<lparr>cb_commit = 1, cb_branch = 1\<rparr>, \<lparr>cb_commit = 1, cb_branch = 2\<rparr>] \<and>
   br_name ` {b \<in> set (branch_tbl twin_final).
        \<exists>r \<in> set (created (commit_branch_tbl empty_store) (commit_branch_tbl twin_final)).
          cb_commit r = cm_id (created (commit_tbl empty_store) (commit_tbl twin_final) ! 0) \<and>
          cb_branch r = br_id b} =
     set (ci_branches (ex_commits twin_info ! 0)) \<inter>
     br_name ` set (created (branch_tbl empty_store) (branch_tbl twin_final))"
proof -
  have e: "repoInfo (demo_env twin_info) (rd_name (demo_repo [])) = twin_info"
    by (simp add: demo_env_def)
  have i: "0 < length (ex_commits (repoInfo (demo_env twin_info) (rd_name (demo_repo []))))"
    unfolding e by (simp add: twin_info_def)
  have d: "ci_branches (ex_commits twin_info ! 0) = [''main'']"
    by (simp add: twin_info_def demo_commit_def)
  note t = createRepository_commit_branches [OF twin_run i, unfolded e]
  from t have "filter
       (\<lambda>r. cb_commit r = cm_id (created (commit_tbl empty_store) (commit_tbl twin_final) ! 0))
       (created (commit_branch_tbl empty_store) (commit_branch_tbl twin_final)) =
     map (\<lambda>b. \<lparr>cb_commit = cm_id (created (commit_tbl empty_store) (commit_tbl twin_final) ! 0),
                cb_branch = br_id b\<rparr>)
       (filter (\<lambda>b. br_name b \<in> set (ci_branches (ex_commits twin_info ! 0)))
          (created (branch_tbl empty_store) (branch_tbl twin_final)))"
    by (elim conjE)
  also have "\<dots> = [\<lparr>cb_commit = 1, cb_branch = 1\<rparr>, \<lparr>cb_commit = 1, cb_branch = 2\<rparr>]"
    unfolding d by (simp add: created_def twin_final_def empty_store_def)
  finally have r: "filter
       (\<lambda>r. cb_commit r = cm_id (created (commit_tbl empty_store) (commit_tbl twin_final) ! 0))
       (created (commit_branch_tbl empty_store) (commit_branch_tbl twin_final)) =
     [\<lparr>cb_commit = 1, cb_branch = 1\<rparr>, \<lparr>cb_commit = 1, cb_branch = 2\<rparr>]" .
  from t have n: "br_name ` {b \<in> set (branch_tbl twin_final).
        \<exists>r \<in> set (created (commit_branch_tbl empty_store) (commit_branch_tbl twin_final)).
          cb_commit r = cm_id (created (commit_tbl empty_store) (commit_tbl twin_final) ! 0) \<and>
          cb_branch r = br_id b} =
     set (ci_branches (ex_commits twin_info ! 0)) \<inter>
     br_name ` set (created (branch_tbl empty_store) (branch_tbl twin_final))"
    by (elim conjE)
  from twin_run i [unfolded e] d r n show ?thesis
    by (intro conjI)
qed

subsection \<open>The cascade completes on a store that accepts every save\<close>

lemma Repository_save_accepts:
  "accepts st = None \<Longrightarrow>
   \<exists>row st1. Repository_save name description user st = (Inr row, st1) \<and> accepts st1 = None"
  by (simp add: Repository_save_def rejects_def tick_def Let_def)

lemma Repository_Language_save_accepts:
  "accepts st = None \<Longrightarrow>
   \<exists>st1. Repository_Language_save repo l st = (Inr (), st1) \<and> accepts st1 = None"
  by (simp add: Repository_Language_save_def rejects_def tick_def Let_def)

lemma Contributor_save_accepts:
  "accepts st = None \<Longrightarrow>
   \<exists>row st1. Contributor_save name repo st = (Inr row, st1) \<and> accepts st1 = None"
  by (simp add: Contributor_save_def rejects_def tick_def Let_def)

lemma Branch_save_accepts:
  "accepts st = None \<Longrightarrow>
   \<exists>row st1. Branch_save name type repo st = (Inr row, st1) \<and> accepts st1 = None"
  by (simp add: Branch_save_def rejects_def tick_def Let_def)

lemma Commit_save_accepts:
  "accepts st = None \<Longrightarrow>
   \<exists>row st1. Commit_save commit author repo st = (Inr row, st1) \<and> accepts st1 = None"
  by (simp add: Commit_save_def rejects_def tick_def Let_def)

lemma Commit_Branch_save_accepts:
  "accepts st = None \<Longrightarrow>
   \<exists>st1. Commit_Branch_save commit branch st = (Inr (), st1) \<and> accepts st1 = None"
  by (simp add: Commit_Branch_save_def rejects_def tick_def Let_def)



lemma save_repo_languages_runs:
  "accepts st = None \<Longrightarrow>
   \<exists>st'. save_repo_languages repo ls st = (Inr (), st') \<and> accepts st' = None"
proof (induction ls arbitrary: st)
  case Nil
  then show ?case by simp
next
  case (Cons l ls)
  from Repository_Language_save_accepts [OF Cons.prems, of repo l] obtain st1 where
    s: "Repository_Language_save repo l st = (Inr (), st1)" and a: "accepts st1 = None"
    by blast
  from Cons.IH [OF a] show ?case by (simp add: s)
qed

lemma save_contributors_runs:
  "accepts st = None \<Longrightarrow>
   \<exists>out st'. save_contributors repo ns acc st = (Inr out, st') \<and> accepts st' = None"
proof (induction ns arbitrary: acc st)
  case Nil
  then show ?case by simp
next
  case (Cons n ns)
  from Contributor_save_accepts [OF Cons.prems, of n repo] obtain row st1 where
    s: "Contributor_save n repo st = (Inr row, st1)" and a: "accepts st1 = None"
    by blast
  from Cons.IH [OF a, of "acc @ [row]"] show ?case by (simp add: s)
qed

lemma save_branches_runs:
  "accepts st = None \<Longrightarrow>
   \<exists>out st'. save_branches repo bs acc st = (Inr out, st') \<and> accepts st' = None"
proof (induction bs arbitrary: acc st)
  case Nil
  then show ?case by simp
next
  case (Cons b bs)
  from Branch_save_accepts [OF Cons.prems, of "bi_name b" "bi_type b" repo] obtain row st1 where
    s: "Branch_save (bi_name b) (bi_type b) repo st = (Inr row, st1)" and
    a: "accepts st1 = None"
    by blast
  from Cons.IH [OF a, of "acc @ [row]"] show ?case by (simp add: s)
qed

lemma save_commit_branches_runs:
  "accepts st = None \<Longrightarrow>
   \<exists>st'. save_commit_branches commit bs st = (Inr (), st') \<and> accepts st' = None"
proof (induction bs arbitrary: st)
  case Nil
  then show ?case by simp
next
  case (Cons b bs)
  from Commit_Branch_save_accepts [OF Cons.prems, of commit "br_id b"] obtain st1 where
    s: "Commit_Branch_save commit (br_id b) st = (Inr (), st1)" and a: "accepts st1 = None"
    by blast
  from Cons.IH [OF a] show ?case by (simp add: s)
qed








subsection \<open>One modification row for each extracted modification\<close>






subsection \<open>Faults leave the writes in the store\<close>

lemma later_steps_refl [simp]: "later_steps st st"
  by (simp add: later_steps_def)

lemma later_steps_trans: "later_steps st st1 \<Longrightarrow> later_steps st1 st2 \<Longrightarrow> later_steps st st2"
  unfolding later_steps_def by (auto intro: prefix_order.trans)

lemma Repository_Language_save_later:
  "Repository_Language_save repo l st = (r, st') \<Longrightarrow> later_steps st st'"
  by (auto simp: Repository_Language_save_def later_steps_def tick_def Let_def split: if_splits)

lemma Contributor_save_later:
  "Contributor_save name repo st = (r, st') \<Longrightarrow> later_steps st st'"
  by (auto simp: Contributor_save_def later_steps_def tick_def Let_def split: if_splits)

lemma Branch_save_later:
  "Branch_save name type repo st = (r, st') \<Longrightarrow> later_steps st st'"
  by (auto simp: Branch_save_def later_steps_def tick_def Let_def split: if_splits)

lemma Commit_save_later:
  "Commit_save commit author repo st = (r, st') \<Longrightarrow> later_steps st st'"
  by (auto simp: Commit_save_def later_steps_def tick_def Let_def split: if_splits)

lemma Commit_Branch_save_later:
  "Commit_Branch_save commit branch st = (r, st') \<Longrightarrow> later_steps st st'"
  by (auto simp: Commit_Branch_save_def later_steps_def tick_def Let_def split: if_splits)

lemma File_save_later:
  "File_save name sz path repo language st = (r, st') \<Longrightarrow> later_steps st st'"
  by (auto simp: File_save_def later_steps_def tick_def Let_def split: if_splits)

lemma Modification_save_later:
  "Modification_save type commit file st = (r, st') \<Longrightarrow> later_steps st st'"
  by (auto simp: Modification_save_def later_steps_def tick_def Let_def split: if_splits)

lemma save_repo_languages_later:
  "save_repo_languages repo ls st = (r, st') \<Longrightarrow> later_steps st st'"
proof (induction ls arbitrary: st)
  case Nil
  then show ?case by simp
next
  case (Cons l ls)
  obtain r1 st1 where s: "Repository_Language_save repo l st = (r1, st1)"
    by (cases "Repository_Language_save repo l st")
  note 1 = Repository_Language_save_later [OF s]
  show ?case
  proof (cases r1)
    case (Inl e)
    with Cons.prems s 1 show ?thesis by simp
  next
    case (Inr u)
    with Cons.prems s have "save_repo_languages repo ls st1 = (r, st')" by simp
    from later_steps_trans [OF 1 Cons.IH [OF this]] show ?thesis .
  qed
qed

lemma save_contributors_later:
  "save_contributors repo ns acc st = (r, st') \<Longrightarrow> later_steps st st'"
proof (induction ns arbitrary: acc st)
  case Nil
  then show ?case by simp
next
  case (Cons n ns)
  obtain r1 st1 where s: "Contributor_save n repo st = (r1, st1)"
    by (cases "Contributor_save n repo st")
  note 1 = Contributor_save_later [OF s]
  show ?case
  proof (cases r1)
    case (Inl e)
    with Cons.prems s 1 show ?thesis by simp
  next
    case (Inr row)
    with Cons.prems s have "save_contributors repo ns (acc @ [row]) st1 = (r, st')" by simp
    from later_steps_trans [OF 1 Cons.IH [OF this]] show ?thesis .
  qed
qed

lemma save_branches_later:
  "save_branches repo bs acc st = (r, st') \<Longrightarrow> later_steps st st'"
proof (induction bs arbitrary: acc st)
  case Nil
  then show ?case by simp
next
  case (Cons b bs)
  obtain r1 st1 where s: "Branch_save (bi_name b) (bi_type b) repo st = (r1, st1)"
    by (cases "Branch_save (bi_name b) (bi_type b) repo st")
  note 1 = Branch_save_later [OF s]
  show ?case
  proof (cases r1)
    case (Inl e)
    with Cons.prems s 1 show ?thesis by simp
  next
    case (Inr row)
    with Cons.prems s have "save_branches repo bs (acc @ [row]) st1 = (r, st')" by simp
    from later_steps_trans [OF 1 Cons.IH [OF this]] show ?thesis .
  qed
qed

lemma save_commit_branches_later:
  "save_commit_branches commit bs st = (r, st') \<Longrightarrow> later_steps st st'"
proof (induction bs arbitrary: st)
  case Nil
  then show ?case by simp
next
  case (Cons b bs)
  obtain r1 st1 where s: "Commit_Branch_save commit (br_id b) st = (r1, st1)"
    by (cases "Commit_Branch_save commit (br_id b) st")
  note 1 = Commit_Branch_save_later [OF s]
  show ?case
  proof (cases r1)
    case (Inl e)
    with Cons.prems s 1 show ?thesis by simp
  next
    case (Inr u)
    with Cons.prems s have "save_commit_branches commit bs st1 = (r, st')" by simp
    from later_steps_trans [OF 1 Cons.IH [OF this]] show ?thesis .
  qed
qed

lemma save_commits_later:
  "save_commits repo csaved bsaved cs acc st = (r, st') \<Longrightarrow> later_steps st st'"
proof (induction cs arbitrary: acc st)
  case Nil
  then show ?case by simp
next
  case (Cons c cs)
  show ?case
  proof (cases "find (\<lambda>k. cr_name k = ci_author c) csaved")
    case None
    with Cons.prems show ?thesis by simp
  next
    case (Some k)
    obtain r1 st1 where s: "Commit_save c (cr_id k) repo st = (r1, st1)"
      by (cases "Commit_save c (cr_id k) repo st")
    note 1 = Commit_save_later [OF s]
    show ?thesis
    proof (cases r1)
      case (Inl e)
      with Cons.prems Some s 1 show ?thesis by simp
    next
      case (Inr row)
      obtain r2 st2 where b: "save_commit_branches (cm_id row)
          (filter (\<lambda>b. br_name b \<in> set (ci_branches c)) bsaved) st1 = (r2, st2)"
        by (cases "save_commit_branches (cm_id row)
          (filter (\<lambda>b. br_name b \<in> set (ci_branches c)) bsaved) st1")
      note 2 = later_steps_trans [OF 1 save_commit_branches_later [OF b]]
      show ?thesis
      proof (cases r2)
        case (Inl e)
        with Cons.prems Some s Inr b 2 show ?thesis by simp
      next
        case (Inr u)
        with Cons.prems Some s \<open>r1 = Inr row\<close> b
        have "save_commits repo csaved bsaved cs (acc @ [row]) st2 = (r, st')" by simp
        from later_steps_trans [OF 2 Cons.IH [OF this]] show ?thesis .
      qed
    qed
  qed
qed

lemma save_file_modifications_later:
  "save_file_modifications csaved fid ms acc st = (r, st') \<Longrightarrow> later_steps st st'"
proof (induction ms arbitrary: acc st)
  case Nil
  then show ?case by simp
next
  case (Cons m ms)
  show ?case
  proof (cases "find (\<lambda>c. cm_hash c = mi_commit m) csaved")
    case None
    with Cons.prems show ?thesis by simp
  next
    case (Some k)
    obtain r1 st1 where s: "Modification_save (mi_type m) (cm_id k) fid st = (r1, st1)"
      by (cases "Modification_save (mi_type m) (cm_id k) fid st")
    note 1 = Modification_save_later [OF s]
    show ?thesis
    proof (cases r1)
      case (Inl e)
      with Cons.prems Some s 1 show ?thesis by simp
    next
      case (Inr row)
      with Cons.prems Some s
      have "save_file_modifications csaved fid ms (acc @ [row]) st1 = (r, st')" by simp
      from later_steps_trans [OF 1 Cons.IH [OF this]] show ?thesis .
    qed
  qed
qed

lemma save_files_later:
  "save_files env repo csaved mods fs accF accM st = (r, st') \<Longrightarrow> later_steps st st'"
proof (induction fs arbitrary: accF accM st)
  case Nil
  then show ?case by simp
next
  case (Cons f fs)
  obtain r1 st1 where s: "File_save (fi_name f) (fi_size f) (fi_path f) repo
       (Language_getByExt env (file_ext (fi_name f))) st = (r1, st1)"
    by (cases "File_save (fi_name f) (fi_size f) (fi_path f) repo
       (Language_getByExt env (file_ext (fi_name f))) st")
  note 1 = File_save_later [OF s]
  show ?case
  proof (cases r1)
    case (Inl e)
    with Cons.prems s 1 show ?thesis by (simp add: Let_def)
  next
    case (Inr row)
    obtain r2 st2 where m: "save_file_modifications csaved (fr_id row)
        (filter (\<lambda>m. mi_file m = fi_path f) mods) accM st1 = (r2, st2)"
      by (cases "save_file_modifications csaved (fr_id row)
        (filter (\<lambda>m. mi_file m = fi_path f) mods) accM st1")
    note 2 = later_steps_trans [OF 1 save_file_modifications_later [OF m]]
    show ?thesis
    proof (cases r2)
      case (Inl e)
      with Cons.prems s Inr m 2 show ?thesis by (simp add: Let_def)
    next
      case (Inr accM')
      with Cons.prems s \<open>r1 = Inr row\<close> m
      have "save_files env repo csaved mods fs (accF @ [row]) accM' st2 = (r, st')"
        by (simp add: Let_def)
      from later_steps_trans [OF 2 Cons.IH [OF this]] show ?thesis .
    qed
  qed
qed

lemma save_deleted_later:
  "save_deleted repo csaved ms accM st = (r, st') \<Longrightarrow> later_steps st st'"
proof (induction ms arbitrary: accM st)
  case Nil
  then show ?case by simp
next
  case (Cons m ms)
  show ?case
  proof (cases "find (\<lambda>c. cm_hash c = mi_commit m) csaved")
    case None
    with Cons.prems show ?thesis by simp
  next
    case (Some k)
    obtain r1 st1 where s: "File_save (file_name_of_path (mi_file m)) (SizeStr ''N/A'')
        (mi_file m) repo None st = (r1, st1)"
      by (cases "File_save (file_name_of_path (mi_file m)) (SizeStr ''N/A'')
        (mi_file m) repo None st")
    note 1 = File_save_later [OF s]
    show ?thesis
    proof (cases r1)
      case (Inl e)
      with Cons.prems Some s 1 show ?thesis by (simp add: Let_def)
    next
      case (Inr frow)
      obtain r2 st2 where t: "Modification_save (mi_type m) (cm_id k) (fr_id frow) st1 =
          (r2, st2)"
        by (cases "Modification_save (mi_type m) (cm_id k) (fr_id frow) st1")
      note 2 = later_steps_trans [OF 1 Modification_save_later [OF t]]
      show ?thesis
      proof (cases r2)
        case (Inl e)
        with Cons.prems Some s Inr t 2 show ?thesis by (simp add: Let_def)
      next
        case (Inr row)
        with Cons.prems Some s \<open>r1 = Inr frow\<close> t
        have "save_deleted repo csaved ms (accM @ [row]) st2 = (r, st')"
          by (simp add: Let_def)
        from later_steps_trans [OF 2 Cons.IH [OF this]] show ?thesis .
      qed
    qed
  qed
qed

text \<open>The cascade after a repository row has been saved, whatever its outcome.\<close>

lemma cascade_after_repository:
  assumes "Repository_save (rd_name repoData) (rd_description repoData) user st =
      (Inr repoSaved, st1)"
    and "cascade env repoData user info st = (r, st')"
  shows "later_steps st1 st'"
proof -
  obtain r2 st2 where s2: "save_repo_languages (rr_id repoSaved) (rd_languages repoData) st1 =
      (r2, st2)"
    by (cases "save_repo_languages (rr_id repoSaved) (rd_languages repoData) st1")
  note l2 = save_repo_languages_later [OF s2]
  show ?thesis
  proof (cases r2)
    case (Inl e)
    with assms s2 l2 show ?thesis by (simp add: cascade_def)
  next
    case i2: (Inr u)
    obtain r3 st3 where s3: "save_contributors (rr_id repoSaved) (ex_contributors info) [] st2 =
        (r3, st3)"
      by (cases "save_contributors (rr_id repoSaved) (ex_contributors info) [] st2")
    note l3 = later_steps_trans [OF l2 save_contributors_later [OF s3]]
    show ?thesis
    proof (cases r3)
      case (Inl e)
      with assms s2 i2 s3 l3 show ?thesis by (simp add: cascade_def)
    next
      case i3: (Inr contributorsSaved)
      obtain r4 st4 where s4: "save_branches (rr_id repoSaved) (ex_branches info) [] st3 =
          (r4, st4)"
        by (cases "save_branches (rr_id repoSaved) (ex_branches info) [] st3")
      note l4 = later_steps_trans [OF l3 save_branches_later [OF s4]]
      show ?thesis
      proof (cases r4)
        case (Inl e)
        with assms s2 i2 s3 i3 s4 l4 show ?thesis by (simp add: cascade_def)
      next
        case i4: (Inr branchesSaved)
        obtain r5 st5 where s5: "save_commits (rr_id repoSaved) contributorsSaved branchesSaved
            (ex_commits info) [] st4 = (r5, st5)"
          by (cases "save_commits (rr_id repoSaved) contributorsSaved branchesSaved
            (ex_commits info) [] st4")
        note l5 = later_steps_trans [OF l4 save_commits_later [OF s5]]
        show ?thesis
        proof (cases r5)
          case (Inl e)
          with assms s2 i2 s3 i3 s4 i4 s5 l5 show ?thesis by (simp add: cascade_def)
        next
          case i5: (Inr commitsSaved)
          obtain r6 st6 where s6: "save_files env (rr_id repoSaved) commitsSaved
              (ex_modifications info) (ex_files info) [] [] st5 = (r6, st6)"
            by (cases "save_files env (rr_id repoSaved) commitsSaved
              (ex_modifications info) (ex_files info) [] [] st5")
          note l6 = later_steps_trans [OF l5 save_files_later [OF s6]]
          show ?thesis
          proof (cases r6)
            case (Inl e)
            with assms s2 i2 s3 i3 s4 i4 s5 i5 s6 l6 show ?thesis by (simp add: cascade_def)
          next
            case i6: (Inr saved)
            obtain filesSaved modificationsSaved where sv: "saved = (filesSaved, modificationsSaved)"
              by (cases saved)
            obtain r7 st7 where s7: "save_deleted (rr_id repoSaved) commitsSaved
                (deletedFilesModifications filesSaved (ex_modifications info))
                modificationsSaved st6 = (r7, st7)"
              by (cases "save_deleted (rr_id repoSaved) commitsSaved
                (deletedFilesModifications filesSaved (ex_modifications info))
                modificationsSaved st6")
            note l7 = later_steps_trans [OF l6 save_deleted_later [OF s7]]
            from assms s2 i2 s3 i3 s4 i4 s5 i5 s6 i6 sv s7 have "st' = st7"
              by (cases r7) (simp_all add: cascade_def)
            with l7 show ?thesis by simp
          qed
        qed
      qed
    qed
  qed
qed

lemma same_tables_refl [simp]: "same_tables s s"
  by (simp add: same_tables_def)













subsection \<open>The steps as a chain\<close>


































































subsection \<open>A commit whose author is not a contributor\<close>

lemma save_commits_faults:
  assumes "accepts st = None"
    and "\<exists>c \<in> set cs. ci_author c \<notin> cr_name ` set csaved"
  shows "\<exists>st'. save_commits repo csaved bsaved cs acc st = (Inl TypeError, st')"
  using assms
proof (induction cs arbitrary: acc st)
  case Nil
  then show ?case by simp
next
  case (Cons c cs)
  show ?case
  proof (cases "find (\<lambda>k. cr_name k = ci_author c) csaved")
    case None
    then show ?thesis by simp
  next
    case (Some k)
    from find_SomeD [OF Some] have "ci_author c \<in> cr_name ` set csaved"
      by force
    with Cons.prems(2) have rest: "\<exists>c \<in> set cs. ci_author c \<notin> cr_name ` set csaved"
      by auto
    from Commit_save_accepts [OF Cons.prems(1), of c "cr_id k" repo] obtain row st1 where
      s: "Commit_save c (cr_id k) repo st = (Inr row, st1)" and a1: "accepts st1 = None"
      by blast
    from save_commit_branches_runs [OF a1, of "cm_id row"
        "filter (\<lambda>b. br_name b \<in> set (ci_branches c)) bsaved"] obtain st2 where
      b: "save_commit_branches (cm_id row)
            (filter (\<lambda>b. br_name b \<in> set (ci_branches c)) bsaved) st1 = (Inr (), st2)" and
      a2: "accepts st2 = None"
      by blast
    from Cons.IH [OF a2 rest, of "acc @ [row]"] show ?thesis by (simp add: Some s b)
  qed
qed

text \<open>
  Claim C2, as the code has it. When the pre-checks pass, the store accepts every save
  and some extracted commit's author is not among the extracted contributors,
  \<open>createRepository\<close> does not return an error value: it leaves with a \<open>TypeError\<close>,
  from reading \<open>.id\<close> of the \<open>undefined\<close> that \<open>find\<close> gave. By then the repository
  row has been saved.
\<close>

theorem createRepository_unknown_author_faults:
  assumes "validation env repoData token = Inr user"
    and "checkIfExistsInBackend env (rd_name repoData)"
    and "\<not> checkIfUserHasRepo (rd_name repoData) user st"
    and "\<forall>lang \<in> set (rd_languages repoData). Language_checkIfExists env lang"
    and "accepts st = None"
    and "repoInfo env (rd_name repoData) = info"
    and "\<exists>c \<in> set (ex_commits info). ci_author c \<notin> set (ex_contributors info)"
  shows "\<exists>st' repoSaved. createRepository env repoData token st = (Inl TypeError, st') \<and>
     repository_tbl st' = repository_tbl st @ [repoSaved]"
proof -
  from Repository_save_accepts [OF assms(5), of "rd_name repoData" "rd_description repoData" user]
  obtain repoSaved st1 where
    s1: "Repository_save (rd_name repoData) (rd_description repoData) user st =
      (Inr repoSaved, st1)" and a1: "accepts st1 = None"
    by blast
  from save_repo_languages_runs [OF a1, of "rr_id repoSaved" "rd_languages repoData"]
  obtain st2 where
    s2: "save_repo_languages (rr_id repoSaved) (rd_languages repoData) st1 = (Inr (), st2)" and
    a2: "accepts st2 = None"
    by blast
  from save_contributors_runs [OF a2, of "rr_id repoSaved" "ex_contributors info" "[]"]
  obtain contributorsSaved st3 where
    s3: "save_contributors (rr_id repoSaved) (ex_contributors info) [] st2 =
      (Inr contributorsSaved, st3)" and a3: "accepts st3 = None"
    by blast
  from save_contributors_ok [OF s3] have e3: "map cr_name contributorsSaved = ex_contributors info"
    by auto
  have names: "cr_name ` set contributorsSaved = set (ex_contributors info)"
    using arg_cong [OF e3, of set] by simp
  from save_branches_runs [OF a3, of "rr_id repoSaved" "ex_branches info" "[]"]
  obtain branchesSaved st4 where
    s4: "save_branches (rr_id repoSaved) (ex_branches info) [] st3 = (Inr branchesSaved, st4)" and
    a4: "accepts st4 = None"
    by blast
  have "\<exists>c \<in> set (ex_commits info). ci_author c \<notin> cr_name ` set contributorsSaved"
    using assms(7) by (simp only: names)
  from save_commits_faults [OF a4 this, of "rr_id repoSaved" branchesSaved "[]"]
  obtain st5 where
    s5: "save_commits (rr_id repoSaved) contributorsSaved branchesSaved (ex_commits info) [] st4 =
      (Inl TypeError, st5)"
    by blast
  have c: "cascade env repoData user info st = (Inl TypeError, st5)"
    by (simp add: cascade_def s1 s2 s3 s4 s5)
  from assms(4) have "check_languages env (rd_languages repoData) = None"
    by (simp add: check_languages_None)
  with assms(1-3,6) c have 1: "createRepository env repoData token st = (Inl TypeError, st5)"
    by (simp add: createRepository_def)
  from Repository_save_ok [OF s1] obtain a where
    st1: "st1 = st\<lparr>repository_tbl := repository_tbl st @ [repoSaved], accepts := a\<rparr>"
    by blast
  from cascade_after_repository [OF s1 c] have "repository_tbl st5 = repository_tbl st1"
    by (simp add: later_steps_def)
  then have 2: "repository_tbl st5 = repository_tbl st @ [repoSaved]"
    by (simp add: st1)
  from 1 2 show ?thesis by (intro exI [of _ st5] exI [of _ repoSaved] conjI)
qed

theorem createRepository_unknown_author_faults_witness:
  "\<exists>st' repoSaved.
     createRepository (demo_env unknown_author_info) (demo_repo [''JavaScript'']) ''tok''
       empty_store = (Inl TypeError, st') \<and>
     repository_tbl st' = repository_tbl empty_store @ [repoSaved]"
proof -
  have v: "validation (demo_env unknown_author_info) (demo_repo [''JavaScript'']) ''tok'' = Inr 7"
    by (simp add: demo_env_def)
  have e: "checkIfExistsInBackend (demo_env unknown_author_info)
      (rd_name (demo_repo [''JavaScript'']))"
    by (simp add: demo_env_def demo_repo_def)
  have h: "\<not> checkIfUserHasRepo (rd_name (demo_repo [''JavaScript''])) 7 empty_store"
    by (simp add: checkIfUserHasRepo_def empty_store_def)
  have l: "\<forall>lang \<in> set (rd_languages (demo_repo [''JavaScript''])).
      Language_checkIfExists (demo_env unknown_author_info) lang"
    by (simp add: demo_env_def demo_repo_def)
  have a: "accepts empty_store = None"
    by (simp add: empty_store_def)
  have i: "repoInfo (demo_env unknown_author_info) (rd_name (demo_repo [''JavaScript''])) =
      unknown_author_info"
    by (simp add: demo_env_def)
  have c: "\<exists>c \<in> set (ex_commits unknown_author_info).
      ci_author c \<notin> set (ex_contributors unknown_author_info)"
    by (simp add: unknown_author_info_def demo_commit_def)
  show ?thesis
    by (rule createRepository_unknown_author_faults [OF v e h l a i c])
qed

subsection \<open>Modifications of one deleted path\<close>

text \<open>
  Claim C1, as the code has it. The ingestion of \<open>demo_info\<close>, in which two
  modifications have the path \<open>old/util.py\<close> that no extracted file has, completes
  with two placeholder files of that path, and the two modifications refer to
  different ones.
\<close>

theorem createRepository_placeholder_per_modification:
  "createRepository (demo_env demo_info) (demo_repo [''JavaScript'']) ''tok'' empty_store =
     (Inr Success, demo_final) \<and>
   map mi_file (ex_modifications demo_info) = [''src/app.js'', ''old/util.py'', ''old/util.py''] \<and>
   map fi_path (ex_files demo_info) = [''src/app.js'', ''Makefile''] \<and>
   map (\<lambda>f. (fr_id f, fr_path f)) (file_tbl demo_final) =
     [(1, ''src/app.js''), (2, ''Makefile''), (3, ''old/util.py''), (4, ''old/util.py'')] \<and>
   map mr_file (modification_tbl demo_final) = [1, 3, 4]"
  using demo_run by (simp add: demo_info_def demo_final_def)

end
